theory Spec2Isabelle
  imports Complex_Main "HOL-Library.Char_ord" "HOL-Library.List_Lexorder"
begin

section \<open>The Upbit listing monitor (src/main.py)\<close>

text \<open>
  The script polls the market list of the exchange, compares every snapshot with the
  previous one and sends Telegram messages to a list of chats. The embedding below follows
  \<^verbatim>\<open>src/main.py\<close> function by function. Everything outside the script (the two HTTP
  endpoints, the clock, signals that arrive while the script blocks) is an explicit
  environment \<open>env\<close>; everything the script does to the outside is recorded in an explicit
  \<open>world\<close> that every function takes and returns.
\<close>

subsection \<open>Data\<close>

text \<open>
  The recipients come from a text that the script takes apart character by character
  (\<open>split\<close>, \<open>strip\<close>): such a Python \<open>str\<close> is the list of its code points. \<open>ascii\<close>
  writes one down from ASCII characters.
\<close>

type_synonym unicode = "nat list"

definition ascii :: "string \<Rightarrow> unicode" where
  "ascii s = map of_char s"

type_synonym chat_id = unicode
type_synonym ticker = string
type_synonym timestamp = nat

text \<open>
  The argument of a \<open>time.sleep\<close>, as the expression of the script that computes it: a
  number of seconds, the quotient of two integers, or a product. The floating-point value
  of the expression is not computed.
\<close>

datatype seconds = Seconds int | Quotient int int | Times seconds int

text \<open>
  Exceptions. \<open>KeyboardInterrupt\<close> is the only one that is not a subclass of Python's
  \<open>Exception\<close>; the others are the classes that the handlers of \<open>get_upbit_markets\<close>
  tell apart, with \<open>OtherException\<close> for every remaining subclass of \<open>Exception\<close>.
  The string is \<open>str(e)\<close>.
\<close>

datatype exn =
    KeyboardInterrupt
  | HTTPError string
  | ConnectionError string
  | Timeout string
  | RequestException string
  | ValueError string
  | KeyError string
  | OtherException string

fun str :: "exn \<Rightarrow> string" where
  "str KeyboardInterrupt = []"
| "str (HTTPError m) = m"
| "str (ConnectionError m) = m"
| "str (Timeout m) = m"
| "str (RequestException m) = m"
| "str (ValueError m) = m"
| "str (KeyError m) = m"
| "str (OtherException m) = m"

text \<open>
  The texts of the Telegram messages, one constructor for each f-string of the script,
  carrying the values that are formatted into it.
\<close>

datatype message =
    MsgInitialFetchFailed
  | MsgMonitoringStarted nat
  | MsgConsecutiveErrors nat
  | MsgNewListing ticker timestamp real
  | MsgNewListings "ticker list" timestamp real
  | MsgStoppedManually
  | MsgCriticalError string

text \<open>The lines written through \<open>logging\<close>, one constructor for each call.\<close>

datatype log_line =
    LogSendStatus chat_id int int nat string
  | LogSendException chat_id int int exn
  | LogNotDelivered chat_id int
  | LogHTTPError string
  | LogConnectionError string
  | LogTimeout
  | LogRequestError string
  | LogJSONError string
  | LogUnexpectedFetchError string
  | LogInitialAttempt nat nat
  | LogRetryIn seconds
  | LogMonitorStart
  | LogInitialFetchFailed
  | LogInitialList nat
  | LogSkipIteration nat nat
  | LogConsecutiveErrors nat
  | LogConnectionRestored
  | LogNewPairsFound "ticker set"
  | LogDelisted "ticker set"
  | LogStopSignal
  | LogCritical exn

text \<open>
  A JSON object of the market list is a dictionary from field names to values; the
  script reads the field \<open>market\<close> only, whose values are strings (the result of
  \<open>get_upbit_markets\<close> is declared a \<open>Set[str]\<close>).
\<close>

type_synonym item = "string \<rightharpoonup> string"

text \<open>
  What \<open>session.get\<close> does: it raises, or it returns a response with a status code and
  a status line (the text of the \<open>HTTPError\<close> that \<open>raise_for_status\<close> builds from it),
  after a measured round trip (\<open>end_time - start_time\<close>), whose \<open>json()\<close> yields a list
  of objects; \<open>Inl\<close> stands for a body on which \<open>json()\<close> or the set comprehension
  raises.
\<close>

datatype get_outcome =
    GetRaises exn
  | GetResponse nat string real "exn + item list"

text \<open>What \<open>session.post\<close> does: it raises, or returns a status code and a body.\<close>

datatype post_outcome =
    PostRaises exn
  | PostResponse nat string

text \<open>
  The environment. The calls that block (\<open>session.get\<close>, \<open>session.post\<close>, \<open>time.sleep\<close>)
  are answered by the number of earlier calls of the same kind; \<open>time.sleep\<close> returns
  unless an exception arrives during it (a \<open>KeyboardInterrupt\<close> after a signal, or an
  error such as \<open>MemoryError\<close>). \<open>datetime_now\<close> is the clock, read by the number of
  fetches made. \<open>TELEGRAM_CHAT_IDS\<close> is the module-level list of recipients.
\<close>

record env =
  TELEGRAM_CHAT_IDS :: "chat_id list"
  session_get :: "nat \<Rightarrow> get_outcome"
  session_post :: "nat \<Rightarrow> chat_id \<Rightarrow> message \<Rightarrow> post_outcome"
  sleep_raises :: "nat \<Rightarrow> exn option"
  datetime_now :: "nat \<Rightarrow> timestamp"

text \<open>
  The world: the number of \<open>session.get\<close> calls made, every \<open>session.post\<close> made (chat,
  text, and whether the answer was status 200), every \<open>time.sleep\<close> made (its argument),
  every call of \<open>send_telegram_message\<close> (its text), the log, and the number of
  \<open>session.close()\<close> calls.
\<close>

record world =
  get_count :: nat
  post_log :: "(chat_id \<times> message \<times> bool) list"
  sleep_log :: "seconds list"
  sent_log :: "message list"
  log_lines :: "log_line list"
  close_count :: nat

definition world0 :: world where
  "world0 = \<lparr>get_count = 0, post_log = [], sleep_log = [], sent_log = [],
             log_lines = [], close_count = 0\<rparr>"

definition logging :: "log_line \<Rightarrow> world \<Rightarrow> world" where
  "logging l w = w\<lparr>log_lines := log_lines w @ [l]\<rparr>"

definition time_sleep :: "env \<Rightarrow> seconds \<Rightarrow> world \<Rightarrow> (exn + unit) \<times> world" where
  "time_sleep env seconds w =
     (let w1 = w\<lparr>sleep_log := sleep_log w @ [seconds]\<rparr> in
      case sleep_raises env (length (sleep_log w)) of
        None \<Rightarrow> (Inr (), w1)
      | Some e \<Rightarrow> (Inl e, w1))"

definition CHECK_INTERVAL_SECONDS :: seconds where
  "CHECK_INTERVAL_SECONDS = Quotient 1 3"

definition MAX_RETRIES :: nat where
  "MAX_RETRIES = 3"

definition RETRY_DELAY :: seconds where
  "RETRY_DELAY = Seconds 2"

subsection \<open>send_telegram_message\<close>

text \<open>
  Lines 78 to 87, the body of \<open>try\<close> with its handler: one \<open>session.post\<close>. The result is
  \<open>Inr True\<close> for status 200 (the \<open>break\<close>), \<open>Inr False\<close> for another status or an
  \<open>Exception\<close> (both logged), and \<open>Inl\<close> for \<open>KeyboardInterrupt\<close>, which
  \<open>except Exception\<close> does not catch.
\<close>

definition try_post :: "env \<Rightarrow> chat_id \<Rightarrow> message \<Rightarrow> int \<Rightarrow> int \<Rightarrow> world \<Rightarrow> (exn + bool) \<times> world" where
  "try_post env chat_id message_text attempt retries w =
     (case session_post env (length (post_log w)) chat_id message_text of
        PostResponse status_code text \<Rightarrow>
          if status_code = 200
          then (Inr True, w\<lparr>post_log := post_log w @ [(chat_id, message_text, True)]\<rparr>)
          else (Inr False,
                logging (LogSendStatus chat_id (attempt + 1) retries status_code text)
                  (w\<lparr>post_log := post_log w @ [(chat_id, message_text, False)]\<rparr>))
      | PostRaises e \<Rightarrow>
          if e = KeyboardInterrupt
          then (Inl e, w\<lparr>post_log := post_log w @ [(chat_id, message_text, False)]\<rparr>)
          else (Inr False,
                logging (LogSendException chat_id (attempt + 1) retries e)
                  (w\<lparr>post_log := post_log w @ [(chat_id, message_text, False)]\<rparr>)))"

text \<open>
  Lines 77 to 90, \<open>for attempt in range(retries)\<close>, over the remaining values of
  \<open>attempt\<close>. The result is \<open>sent_to_this_chat\<close>. \<open>time.sleep(1)\<close> is outside the \<open>try\<close>, so
  whatever it raises leaves the function.
\<close>

fun post_attempts :: "env \<Rightarrow> chat_id \<Rightarrow> message \<Rightarrow> int \<Rightarrow> int list \<Rightarrow> world \<Rightarrow> (exn + bool) \<times> world" where
  "post_attempts env chat_id message_text retries [] w = (Inr False, w)"
| "post_attempts env chat_id message_text retries (attempt # rest) w =
     (case try_post env chat_id message_text attempt retries w of
        (Inl e, w1) \<Rightarrow> (Inl e, w1)
      | (Inr True, w1) \<Rightarrow> (Inr True, w1)
      | (Inr False, w1) \<Rightarrow>
          if attempt < retries - 1
          then (case time_sleep env (Seconds 1) w1 of
                  (Inl e, w2) \<Rightarrow> (Inl e, w2)
                | (Inr u, w2) \<Rightarrow> post_attempts env chat_id message_text retries rest w2)
          else post_attempts env chat_id message_text retries rest w1)"

text \<open>
  Lines 69 to 94, \<open>for chat_id in TELEGRAM_CHAT_IDS\<close>, over the remaining chats, with the
  current value of \<open>all_successful\<close>. \<open>range(retries)\<close> is \<open>[0..retries - 1]\<close>, empty when
  \<open>retries \<le> 0\<close>.
\<close>

fun send_to_chats :: "env \<Rightarrow> message \<Rightarrow> int \<Rightarrow> chat_id list \<Rightarrow> bool \<Rightarrow> world \<Rightarrow> (exn + bool) \<times> world" where
  "send_to_chats env message_text retries [] all_successful w = (Inr all_successful, w)"
| "send_to_chats env message_text retries (chat_id # rest) all_successful w =
     (case post_attempts env chat_id message_text retries [0..retries - 1] w of
        (Inl e, w1) \<Rightarrow> (Inl e, w1)
      | (Inr sent_to_this_chat, w1) \<Rightarrow>
          if \<not> sent_to_this_chat
          then send_to_chats env message_text retries rest False
                 (logging (LogNotDelivered chat_id retries) w1)
          else send_to_chats env message_text retries rest all_successful w1)"

definition send_telegram_message :: "env \<Rightarrow> message \<Rightarrow> int \<Rightarrow> world \<Rightarrow> (exn + bool) \<times> world" where
  "send_telegram_message env message_text retries w =
     send_to_chats env message_text retries (TELEGRAM_CHAT_IDS env) True
       (w\<lparr>sent_log := sent_log w @ [message_text]\<rparr>)"

subsection \<open>The comparison of two snapshots\<close>

text \<open>Lines 206 and 207.\<close>

definition new_listings :: "ticker set \<Rightarrow> ticker set \<Rightarrow> ticker set" where
  "new_listings new_markets_set current_markets_set = new_markets_set - current_markets_set"

definition delisted_pairs :: "ticker set \<Rightarrow> ticker set \<Rightarrow> ticker set" where
  "delisted_pairs new_markets_set current_markets_set = current_markets_set - new_markets_set"

subsection \<open>get_upbit_markets\<close>

text \<open>
  Lines 107 to 117, the body of \<open>try\<close>, for the \<open>k\<close>-th call of \<open>session.get\<close>:
  \<open>raise_for_status\<close> raises for the status codes from 400 to 599, and the set
  comprehension keeps the \<open>market\<close> field of every object that has one.
\<close>

definition fetch :: "env \<Rightarrow> nat \<Rightarrow> exn + (ticker set \<times> real)" where
  "fetch env k =
     (case session_get env k of
        GetRaises e \<Rightarrow> Inl e
      | GetResponse status_code status_line latency body \<Rightarrow>
          if 400 \<le> status_code \<and> status_code < 600 then Inl (HTTPError status_line)
          else (case body of
                  Inl e \<Rightarrow> Inl e
                | Inr data \<Rightarrow>
                    Inr (set (List.map_filter (\<lambda>item. item ''market'') data), latency)))"

text \<open>
  The handlers, lines 119 to 132: every \<open>Exception\<close> is logged and becomes \<open>(None, 0)\<close>;
  \<open>KeyboardInterrupt\<close> is not caught.
\<close>

definition get_upbit_markets :: "env \<Rightarrow> world \<Rightarrow> (exn + (ticker set option \<times> real)) \<times> world" where
  "get_upbit_markets env w =
     (let w1 = w\<lparr>get_count := Suc (get_count w)\<rparr> in
      case fetch env (get_count w) of
        Inr (tickers_set, latency) \<Rightarrow> (Inr (Some tickers_set, latency), w1)
      | Inl KeyboardInterrupt \<Rightarrow> (Inl KeyboardInterrupt, w1)
      | Inl (HTTPError m) \<Rightarrow> (Inr (None, 0), logging (LogHTTPError m) w1)
      | Inl (ConnectionError m) \<Rightarrow> (Inr (None, 0), logging (LogConnectionError m) w1)
      | Inl (Timeout m) \<Rightarrow> (Inr (None, 0), logging LogTimeout w1)
      | Inl (RequestException m) \<Rightarrow> (Inr (None, 0), logging (LogRequestError m) w1)
      | Inl (ValueError m) \<Rightarrow> (Inr (None, 0), logging (LogJSONError m) w1)
      | Inl (KeyError m) \<Rightarrow> (Inr (None, 0), logging (LogJSONError m) w1)
      | Inl (OtherException m) \<Rightarrow> (Inr (None, 0), logging (LogUnexpectedFetchError m) w1))"

subsection \<open>wait_for_initial_markets\<close>

text \<open>
  Lines 142 to 153, \<open>for attempt in range(MAX_RETRIES)\<close>, over the remaining values of
  \<open>attempt\<close>. \<open>if markets\<close> is Python's truth test: \<open>None\<close> and the empty set are false.
\<close>

fun wait_attempts :: "env \<Rightarrow> nat list \<Rightarrow> world \<Rightarrow> (exn + ticker set option) \<times> world" where
  "wait_attempts env [] w = (Inr None, w)"
| "wait_attempts env (attempt # rest) w =
     (case get_upbit_markets env (logging (LogInitialAttempt (attempt + 1) MAX_RETRIES) w) of
        (Inl e, w1) \<Rightarrow> (Inl e, w1)
      | (Inr (markets, latency), w1) \<Rightarrow>
          if markets \<noteq> None \<and> markets \<noteq> Some {} then (Inr markets, w1)
          else if attempt < MAX_RETRIES - 1
          then (case time_sleep env RETRY_DELAY (logging (LogRetryIn RETRY_DELAY) w1) of
                  (Inl e, w2) \<Rightarrow> (Inl e, w2)
                | (Inr u, w2) \<Rightarrow> wait_attempts env rest w2)
          else wait_attempts env rest w1)"

definition wait_for_initial_markets :: "env \<Rightarrow> world \<Rightarrow> (exn + ticker set option) \<times> world" where
  "wait_for_initial_markets env w = wait_attempts env [0..<MAX_RETRIES] w"

subsection \<open>monitor_upbit_listings\<close>

record monitor_state =
  current_markets_set :: "ticker set"
  consecutive_errors :: nat

definition max_consecutive_errors :: nat where
  "max_consecutive_errors = 10"

text \<open>
  Lines 187 to 197: the iteration after a fetch whose result is false (\<open>None\<close> or the
  empty set), up to \<open>continue\<close>.
\<close>

definition skip_iteration :: "env \<Rightarrow> monitor_state \<Rightarrow> world \<Rightarrow> (exn + monitor_state) \<times> world" where
  "skip_iteration env s w =
     (let errors = consecutive_errors s + 1;
          w1 = logging (LogSkipIteration errors max_consecutive_errors) w
      in case (if errors \<ge> max_consecutive_errors
               then (case send_telegram_message env (MsgConsecutiveErrors errors) 3
                            (logging (LogConsecutiveErrors errors) w1) of
                       (Inl e, w2) \<Rightarrow> (Inl e, w2)
                     | (Inr b, w2) \<Rightarrow> (Inr 0, w2))
               else (Inr errors, w1)) of
           (Inl e, w3) \<Rightarrow> (Inl e, w3)
         | (Inr errors', w3) \<Rightarrow>
             (case time_sleep env (Times CHECK_INTERVAL_SECONDS 3) w3 of
                (Inl e, w4) \<Rightarrow> (Inl e, w4)
              | (Inr u, w4) \<Rightarrow> (Inr (s\<lparr>consecutive_errors := errors'\<rparr>), w4)))"

text \<open>
  Lines 211 to 232: the message for a non-empty set of new pairs. \<open>list(new_listings)[0]\<close>
  is taken when the set has one element, which is then the head of the sorted list too.
  The result of \<open>send_telegram_message\<close> is not used.
\<close>

definition announce_listings :: "env \<Rightarrow> ticker set \<Rightarrow> real \<Rightarrow> world \<Rightarrow> (exn + bool) \<times> world" where
  "announce_listings env listings latency w =
     (let detection_time = datetime_now env (get_count w);
          w1 = logging (LogNewPairsFound listings) w
      in if card listings = 1
         then (let pair = hd (sorted_list_of_set listings)
               in send_telegram_message env (MsgNewListing pair detection_time latency) 3 w1)
         else send_telegram_message env
                (MsgNewListings (sorted_list_of_set listings) detection_time latency) 3 w1)"

text \<open>
  Lines 205 to 241: the comparison with the current set. The result is
  \<open>current_markets_set\<close> as line 241 leaves it.
\<close>

definition compare_markets :: "env \<Rightarrow> ticker set \<Rightarrow> ticker set \<Rightarrow> real \<Rightarrow> world \<Rightarrow> (exn + ticker set) \<times> world" where
  "compare_markets env current new_markets_set latency w =
     (if new_markets_set \<noteq> current
      then (let listings = new_listings new_markets_set current;
                delisted = delisted_pairs new_markets_set current
            in case (if listings \<noteq> {}
                     then announce_listings env listings latency w
                     else (Inr True, w)) of
                 (Inl e, w1) \<Rightarrow> (Inl e, w1)
               | (Inr b, w1) \<Rightarrow>
                   (Inr new_markets_set,
                    if delisted \<noteq> {} then logging (LogDelisted delisted) w1 else w1))
      else (Inr current, w))"

text \<open>Lines 200 to 243: the iteration after a fetch whose result is true.\<close>

definition process_snapshot :: "env \<Rightarrow> monitor_state \<Rightarrow> ticker set \<Rightarrow> real \<Rightarrow> world \<Rightarrow> (exn + monitor_state) \<times> world" where
  "process_snapshot env s new_markets_set latency w =
     (let w1 = (if consecutive_errors s > 0 then logging LogConnectionRestored w else w);
          errors = (if consecutive_errors s > 0 then 0 else consecutive_errors s)
      in case compare_markets env (current_markets_set s) new_markets_set latency w1 of
           (Inl e, w2) \<Rightarrow> (Inl e, w2)
         | (Inr current, w2) \<Rightarrow>
             (case time_sleep env CHECK_INTERVAL_SECONDS w2 of
                (Inl e, w3) \<Rightarrow> (Inl e, w3)
              | (Inr u, w3) \<Rightarrow>
                  (Inr \<lparr>current_markets_set = current, consecutive_errors = errors\<rparr>, w3)))"

text \<open>Lines 183 to 243: one iteration of \<open>while True\<close>.\<close>

definition loop_body :: "env \<Rightarrow> monitor_state \<Rightarrow> world \<Rightarrow> (exn + monitor_state) \<times> world" where
  "loop_body env s w =
     (case get_upbit_markets env w of
        (Inl e, w1) \<Rightarrow> (Inl e, w1)
      | (Inr (new_markets_set, latency), w1) \<Rightarrow>
          (case new_markets_set of
             None \<Rightarrow> skip_iteration env s w1
           | Some markets \<Rightarrow>
               if markets = {} then skip_iteration env s w1
               else process_snapshot env s markets latency w1))"

text \<open>
  \<open>while True\<close> ends only by an exception. \<open>running_loop env n\<close> runs the first \<open>n\<close>
  iterations: \<open>Inl e\<close> when one of them raised \<open>e\<close>, and \<open>Inr\<close> of the state of the loop
  when all \<open>n\<close> completed and the loop goes on.
\<close>

fun running_loop :: "env \<Rightarrow> nat \<Rightarrow> monitor_state \<Rightarrow> world \<Rightarrow> (exn + monitor_state) \<times> world" where
  "running_loop env 0 s w = (Inr s, w)"
| "running_loop env (Suc n) s w =
     (case loop_body env s w of
        (Inl e, w1) \<Rightarrow> (Inl e, w1)
      | (Inr s1, w1) \<Rightarrow> running_loop env n s1 w1)"

text \<open>Lines 166 to 169: no initial list; the \<open>return\<close> of line 169 is \<open>Inr None\<close>.\<close>

definition stop_without_markets :: "env \<Rightarrow> world \<Rightarrow> (exn + monitor_state option) \<times> world" where
  "stop_without_markets env w =
     (case send_telegram_message env MsgInitialFetchFailed 3 (logging LogInitialFetchFailed w) of
        (Inl e, w1) \<Rightarrow> (Inl e, w1)
      | (Inr b, w1) \<Rightarrow> (Inr None, w1))"

text \<open>
  Lines 160 to 179, everything before \<open>try\<close>: \<open>Inr (Some s)\<close> is the state in which the
  loop is entered. \<open>if not current_markets_set\<close> is the truth test again.
\<close>

definition start_monitoring :: "env \<Rightarrow> world \<Rightarrow> (exn + monitor_state option) \<times> world" where
  "start_monitoring env w =
     (case wait_for_initial_markets env (logging LogMonitorStart w) of
        (Inl e, w1) \<Rightarrow> (Inl e, w1)
      | (Inr initial, w1) \<Rightarrow>
          (case initial of
             None \<Rightarrow> stop_without_markets env w1
           | Some markets \<Rightarrow>
               if markets = {} then stop_without_markets env w1
               else (case send_telegram_message env (MsgMonitoringStarted (card markets)) 3
                            (logging (LogInitialList (card markets)) w1) of
                       (Inl e, w2) \<Rightarrow> (Inl e, w2)
                     | (Inr b, w2) \<Rightarrow>
                         (Inr (Some \<lparr>current_markets_set = markets, consecutive_errors = 0\<rparr>),
                          w2))))"

text \<open>Lines 245 to 250: the two handlers of the loop.\<close>

definition handle_exception :: "env \<Rightarrow> exn \<Rightarrow> world \<Rightarrow> (exn + bool) \<times> world" where
  "handle_exception env e w =
     (if e = KeyboardInterrupt
      then send_telegram_message env MsgStoppedManually 3 (logging LogStopSignal w)
      else send_telegram_message env (MsgCriticalError (take 200 (str e))) 3
             (logging (LogCritical e) w))"

definition session_close :: "world \<Rightarrow> world" where
  "session_close w = w\<lparr>close_count := Suc (close_count w)\<rparr>"

text \<open>
  How a call of \<open>monitor_upbit_listings\<close> stands after at most \<open>n\<close> iterations of
  its loop: it has returned, an exception has left it, or it is still in the loop.
\<close>

datatype outcome = Returned | Raised exn | Looping monitor_state

definition monitor_upbit_listings :: "env \<Rightarrow> nat \<Rightarrow> world \<Rightarrow> outcome \<times> world" where
  "monitor_upbit_listings env n w =
     (case start_monitoring env w of
        (Inl e, w1) \<Rightarrow> (Raised e, w1)
      | (Inr None, w1) \<Rightarrow> (Returned, w1)
      | (Inr (Some s), w1) \<Rightarrow>
          (case running_loop env n s w1 of
             (Inr s', w2) \<Rightarrow> (Looping s', w2)
           | (Inl e, w2) \<Rightarrow>
               (case handle_exception env e w2 of
                  (Inl e', w3) \<Rightarrow> (Raised e', session_close w3)
                | (Inr b, w3) \<Rightarrow> (Returned, session_close w3))))"

subsection \<open>The script\<close>

text \<open>
  Lines 14 to 33. \<open>split_comma\<close> is \<open>str.split(',')\<close> (the comma is the code point 44),
  \<open>isspace\<close> is \<open>str.isspace\<close> on one character (the white space of Unicode: the
  code points 9 to 13, 28 to 32, U+0085, U+00A0, U+1680, U+2000 to U+200A, U+2028, U+2029,
  U+202F, U+205F and U+3000), and \<open>strip\<close> is \<open>str.strip()\<close>. Both exits are
  \<open>sys.exit(1)\<close>.
\<close>

fun split_comma :: "unicode \<Rightarrow> unicode list" where
  "split_comma [] = [[]]"
| "split_comma (c # cs) =
     (if c = 44 then [] # split_comma cs
      else (case split_comma cs of
              [] \<Rightarrow> [[c]]
            | x # xs \<Rightarrow> (c # x) # xs))"

definition isspace :: "nat \<Rightarrow> bool" where
  "isspace c \<longleftrightarrow>
     (9 \<le> c \<and> c \<le> 13) \<or> (28 \<le> c \<and> c \<le> 32) \<or> c = 133 \<or> c = 160 \<or> c = 5760
     \<or> (8192 \<le> c \<and> c \<le> 8202) \<or> c = 8232 \<or> c = 8233 \<or> c = 8239 \<or> c = 8287
     \<or> c = 12288"

definition strip :: "unicode \<Rightarrow> unicode" where
  "strip s = rev (dropWhile isspace (rev (dropWhile isspace s)))"

definition load_configuration :: "unicode option \<Rightarrow> unicode option \<Rightarrow> nat + chat_id list" where
  "load_configuration TELEGRAM_BOT_TOKEN TELEGRAM_CHAT_ID_STRING =
     (case (TELEGRAM_BOT_TOKEN, TELEGRAM_CHAT_ID_STRING) of
        (Some token, Some chat_id_string) \<Rightarrow>
          if token = [] \<or> chat_id_string = [] then Inl 1
          else (let chat_ids = map strip (split_comma chat_id_string)
                in if \<forall>chat_id \<in> set chat_ids. chat_id \<noteq> [] then Inr chat_ids else Inl 1)
      | _ \<Rightarrow> Inl 1)"

text \<open>
  How the process stands: it has exited with a status, or it is still in the loop.
  A call that returns ends the script with status 0; an exception that leaves it ends
  the interpreter with a non-zero status (130 after \<open>KeyboardInterrupt\<close>, 1 otherwise).
\<close>

datatype process = Exited nat | Alive

definition script :: "unicode option \<Rightarrow> unicode option \<Rightarrow> env \<Rightarrow> nat \<Rightarrow> world \<Rightarrow> process \<times> world" where
  "script TELEGRAM_BOT_TOKEN TELEGRAM_CHAT_ID_STRING env n w =
     (case load_configuration TELEGRAM_BOT_TOKEN TELEGRAM_CHAT_ID_STRING of
        Inl status \<Rightarrow> (Exited status, w)
      | Inr chat_ids \<Rightarrow>
          (case monitor_upbit_listings (env\<lparr>TELEGRAM_CHAT_IDS := chat_ids\<rparr>) n w of
             (Returned, w1) \<Rightarrow> (Exited 0, w1)
           | (Raised e, w1) \<Rightarrow> (Exited (if e = KeyboardInterrupt then 130 else 1), w1)
           | (Looping s, w1) \<Rightarrow> (Alive, w1)))"

subsection \<open>Vocabulary of the properties\<close>

text \<open>
  An entry of \<open>post_log\<close> is one delivery attempt; it succeeded when the answer was
  status 200.
\<close>

definition attempt_ok :: "chat_id \<times> message \<times> bool \<Rightarrow> bool" where
  "attempt_ok a = snd (snd a)"

text \<open>
  \<open>attempts_of retries message_text chat_id seg\<close>: the attempts \<open>seg\<close> are what one
  recipient can get from one call: at most \<open>retries\<close> attempts, all to this chat with
  this text, none successful but possibly the last, and all \<open>retries\<close> of them made
  when none succeeded.
\<close>

definition attempts_of :: "int \<Rightarrow> message \<Rightarrow> chat_id \<Rightarrow> (chat_id \<times> message \<times> bool) list \<Rightarrow> bool" where
  "attempts_of retries message_text chat_id seg \<longleftrightarrow>
     int (length seg) \<le> max 0 retries
     \<and> (\<forall>a \<in> set seg. fst a = chat_id \<and> fst (snd a) = message_text)
     \<and> (\<forall>a \<in> set (butlast seg). \<not> attempt_ok a)
     \<and> ((\<exists>a \<in> set seg. attempt_ok a) \<or> int (length seg) = max 0 retries)"

text \<open>
  \<open>fetch_failed env k\<close>: the \<open>k\<close>-th fetch gives its caller a false value, \<open>None\<close> after an
  \<open>Exception\<close> or the empty set.
\<close>

definition fetch_failed :: "env \<Rightarrow> nat \<Rightarrow> bool" where
  "fetch_failed env k =
     (case fetch env k of
        Inl e \<Rightarrow> e \<noteq> KeyboardInterrupt
      | Inr (markets, latency) \<Rightarrow> markets = {})"

text \<open>
  \<open>last_successfully_fetched env g n initial\<close>: the set returned by the last of the
  fetches number \<open>g, \<dots>, g + n - 1\<close> that returned a set, and \<open>initial\<close> when each of them
  raised.
\<close>

fun last_successfully_fetched :: "env \<Rightarrow> nat \<Rightarrow> nat \<Rightarrow> ticker set \<Rightarrow> ticker set" where
  "last_successfully_fetched env g 0 initial = initial"
| "last_successfully_fetched env g (Suc n) initial =
     (case fetch env (g + n) of
        Inl e \<Rightarrow> last_successfully_fetched env g n initial
      | Inr (markets, latency) \<Rightarrow> markets)"

text \<open>
  \<open>last_nonempty_fetched env g n initial\<close>: the set returned by the last of the fetches
  number \<open>g, \<dots>, g + n - 1\<close> that returned a non-empty set, and \<open>initial\<close> when none did.
\<close>

fun last_nonempty_fetched :: "env \<Rightarrow> nat \<Rightarrow> nat \<Rightarrow> ticker set \<Rightarrow> ticker set" where
  "last_nonempty_fetched env g 0 initial = initial"
| "last_nonempty_fetched env g (Suc n) initial =
     (case fetch env (g + n) of
        Inl e \<Rightarrow> last_nonempty_fetched env g n initial
      | Inr (markets, latency) \<Rightarrow>
          if markets \<noteq> {} then markets else last_nonempty_fetched env g n initial)"

text \<open>
  \<open>uninterrupted env\<close>: no exception arrives during a \<open>time.sleep\<close>, and no
  \<open>KeyboardInterrupt\<close> during a \<open>session.post\<close>.
\<close>

definition uninterrupted :: "env \<Rightarrow> bool" where
  "uninterrupted env \<longleftrightarrow>
     (\<forall>k. sleep_raises env k = None)
     \<and> (\<forall>k chat_id message_text.
           session_post env k chat_id message_text \<noteq> PostRaises KeyboardInterrupt)"

text \<open>
  An environment given by finite scripts: the answers to the first calls of
  \<open>session.get\<close>, \<open>session.post\<close> and \<open>time.sleep\<close>. After its script, \<open>session.get\<close> fails
  to connect, \<open>session.post\<close> answers 200 and \<open>time.sleep\<close> returns.
\<close>

definition scripted_env :: "chat_id list \<Rightarrow> get_outcome list \<Rightarrow> post_outcome list \<Rightarrow> exn option list \<Rightarrow> env" where
  "scripted_env chat_ids gets posts sleeps =
     \<lparr>TELEGRAM_CHAT_IDS = chat_ids,
      session_get = (\<lambda>k. if k < length gets then gets ! k else GetRaises (ConnectionError ''refused'')),
      session_post = (\<lambda>k chat_id message_text.
                        if k < length posts then posts ! k else PostResponse 200 ''ok''),
      sleep_raises = (\<lambda>k. if k < length sleeps then sleeps ! k else None),
      datetime_now = (\<lambda>k. k)\<rparr>"

text \<open>A response with status 200 whose JSON lists the given markets.\<close>

definition markets_response :: "ticker list \<Rightarrow> get_outcome" where
  "markets_response tickers =
     GetResponse 200 ''OK'' (1 / 4) (Inr (map (\<lambda>t. [''market'' \<mapsto> t]) tickers))"


section \<open>Properties\<close>

subsection \<open>The comparison of two snapshots\<close>

lemma listings_delisted_disjoint:
  "new_listings B A \<inter> delisted_pairs B A = {}"
  by (auto simp: new_listings_def delisted_pairs_def)

text \<open>
  C4, as stated: for the previous set \<open>A\<close> and the fetched set \<open>B\<close>, the added set
  \<open>B - A\<close> and the removed set \<open>A - B\<close> are disjoint and \<open>A \<union> removed = B \<union> added\<close>.
  The equation fails as soon as the two sets differ: with \<open>A = {KRW-BTC}\<close> and
  \<open>B = {KRW-BTC, KRW-ETH}\<close> the left side is \<open>A\<close> and the right side is \<open>B\<close>.
\<close>

theorem C4_union_counterexample:
  "{''KRW-BTC''} \<union> delisted_pairs {''KRW-BTC'', ''KRW-ETH''} {''KRW-BTC''}
     \<noteq> {''KRW-BTC'', ''KRW-ETH''} \<union> new_listings {''KRW-BTC'', ''KRW-ETH''} {''KRW-BTC''}"
  by (simp add: new_listings_def delisted_pairs_def)

text \<open>
  C4, amended: for the previous set \<open>A\<close> and the fetched set \<open>B\<close>, the added set \<open>B - A\<close>
  and the removed set \<open>A - B\<close> are disjoint, and \<open>A \<union> added = B \<union> removed\<close> (both are
  \<open>A \<union> B\<close>).
\<close>

theorem C4_snapshot_difference:
  "new_listings B A \<inter> delisted_pairs B A = {}
   \<and> A \<union> new_listings B A = B \<union> delisted_pairs B A"
  by (auto simp: new_listings_def delisted_pairs_def)

subsection \<open>What a call leaves unchanged\<close>

lemma try_post_frame:
  "get_count (snd (try_post env c m a r w)) = get_count w
   \<and> sent_log (snd (try_post env c m a r w)) = sent_log w
   \<and> close_count (snd (try_post env c m a r w)) = close_count w"
  by (simp add: try_post_def logging_def split: post_outcome.splits)

lemma time_sleep_frame:
  "get_count (snd (time_sleep env d w)) = get_count w
   \<and> sent_log (snd (time_sleep env d w)) = sent_log w
   \<and> close_count (snd (time_sleep env d w)) = close_count w
   \<and> post_log (snd (time_sleep env d w)) = post_log w"
  by (simp add: time_sleep_def Let_def split: option.splits)

lemma post_attempts_frame:
  "get_count (snd (post_attempts env c m r as w)) = get_count w
   \<and> sent_log (snd (post_attempts env c m r as w)) = sent_log w
   \<and> close_count (snd (post_attempts env c m r as w)) = close_count w"
proof (induction as arbitrary: w)
  case Nil
  show ?case by simp
next
  case (Cons a as)
  obtain res w1 where tp: "try_post env c m a r w = (res, w1)"
    by (cases "try_post env c m a r w")
  obtain res2 w2 where ts: "time_sleep env (Seconds 1) w1 = (res2, w2)"
    by (cases "time_sleep env (Seconds 1) w1")
  from try_post_frame [of env c m a r w] tp
  have f1: "get_count w1 = get_count w" "sent_log w1 = sent_log w"
    "close_count w1 = close_count w"
    by simp_all
  from time_sleep_frame [of env "Seconds 1" w1] ts
  have f2: "get_count w2 = get_count w1" "sent_log w2 = sent_log w1"
    "close_count w2 = close_count w1"
    by simp_all
  show ?case
    using tp ts f1 f2 Cons.IH [of w1] Cons.IH [of w2]
    by (simp split: sum.splits bool.splits)
qed

lemma send_to_chats_frame:
  "get_count (snd (send_to_chats env m r ids acc w)) = get_count w
   \<and> sent_log (snd (send_to_chats env m r ids acc w)) = sent_log w
   \<and> close_count (snd (send_to_chats env m r ids acc w)) = close_count w"
proof (induction ids arbitrary: acc w)
  case Nil
  show ?case by simp
next
  case (Cons c ids)
  obtain res w1 where pa: "post_attempts env c m r [0..r - 1] w = (res, w1)"
    by (cases "post_attempts env c m r [0..r - 1] w")
  from post_attempts_frame [of env c m r "[0..r - 1]" w] pa
  have f1: "get_count w1 = get_count w" "sent_log w1 = sent_log w"
    "close_count w1 = close_count w"
    by simp_all
  show ?case
    using pa f1 Cons.IH [of False "logging (LogNotDelivered c r) w1"] Cons.IH [of acc w1]
    by (simp add: logging_def split: sum.splits)
qed

text \<open>A call of \<open>send_telegram_message\<close> is one more entry of \<open>sent_log\<close>, however it ends.\<close>

lemma send_telegram_message_frame:
  "get_count (snd (send_telegram_message env m r w)) = get_count w"
  "sent_log (snd (send_telegram_message env m r w)) = sent_log w @ [m]"
  "close_count (snd (send_telegram_message env m r w)) = close_count w"
  using send_to_chats_frame [of env m r "TELEGRAM_CHAT_IDS env" True
      "w\<lparr>sent_log := sent_log w @ [m]\<rparr>"]
  by (simp_all add: send_telegram_message_def)

subsection \<open>Delivery to all recipients\<close>

lemma try_post_log:
  "try_post env c m a r w = (res, w') \<Longrightarrow>
     post_log w' = post_log w @ [(c, m, res = Inr True)]"
  by (auto simp: try_post_def logging_def split: post_outcome.splits if_splits)

lemma try_post_ok:
  "fst (try_post env c m a r w) = Inr True \<longleftrightarrow>
     (\<exists>body. session_post env (length (post_log w)) c m = PostResponse 200 body)"
  by (simp add: try_post_def split: post_outcome.splits)

lemma time_sleep_post_log:
  "time_sleep env d w = (res, w') \<Longrightarrow> post_log w' = post_log w"
  by (auto simp: time_sleep_def Let_def split: option.splits)

lemma post_attempts_log:
  "post_attempts env c m r as w = (Inr sent, w') \<Longrightarrow>
     \<exists>seg. post_log w' = post_log w @ seg
       \<and> length seg \<le> length as
       \<and> (\<forall>a \<in> set seg. fst a = c \<and> fst (snd a) = m)
       \<and> (\<forall>a \<in> set (butlast seg). \<not> attempt_ok a)
       \<and> (sent \<longleftrightarrow> (\<exists>a \<in> set seg. attempt_ok a))
       \<and> (\<not> sent \<longrightarrow> length seg = length as)
       \<and> (as \<noteq> [] \<longrightarrow> seg \<noteq> [])"
proof (induction as arbitrary: w)
  case Nil
  then show ?case by simp
next
  case (Cons a as)
  obtain res w1 where tp: "try_post env c m a r w = (res, w1)"
    by (cases "try_post env c m a r w")
  note pl = try_post_log [OF tp]
  show ?case
  proof (cases res)
    case (Inl e)
    with Cons.prems tp show ?thesis by simp
  next
    case (Inr ok)
    show ?thesis
    proof (cases ok)
      case True
      with Inr Cons.prems tp have "sent" "w' = w1" by auto
      with pl Inr True show ?thesis
        by (intro exI [of _ "[(c, m, True)]"]) (simp add: attempt_ok_def)
    next
      case False
      obtain w2 where rest: "post_attempts env c m r as w2 = (Inr sent, w')"
        and w2: "post_log w2 = post_log w1"
        using Cons.prems tp Inr False
        by (auto split: if_splits prod.splits sum.splits dest: time_sleep_post_log)
      from Cons.IH [OF rest] obtain seg where seg:
        "post_log w' = post_log w2 @ seg" "length seg \<le> length as"
        "\<forall>a \<in> set seg. fst a = c \<and> fst (snd a) = m"
        "\<forall>a \<in> set (butlast seg). \<not> attempt_ok a"
        "sent \<longleftrightarrow> (\<exists>a \<in> set seg. attempt_ok a)"
        "\<not> sent \<longrightarrow> length seg = length as"
        by blast
      show ?thesis
        using seg w2 pl Inr False
        by (intro exI [of _ "(c, m, False) # seg"])
           (auto simp: attempt_ok_def dest: in_set_butlastD)
    qed
  qed
qed

lemma post_attempts_range:
  assumes "post_attempts env c m r [0..r - 1] w = (Inr sent, w')"
  shows "\<exists>seg. post_log w' = post_log w @ seg \<and> attempts_of r m c seg
           \<and> (sent \<longleftrightarrow> (\<exists>a \<in> set seg. attempt_ok a))
           \<and> (1 \<le> r \<longrightarrow> seg \<noteq> [])"
proof -
  have len: "int (length [0..r - 1]) = max 0 r" by simp
  have ne: "1 \<le> r \<longrightarrow> [0..r - 1] \<noteq> []" by (simp add: upto.simps)
  from post_attempts_log [OF assms] obtain seg where seg:
    "post_log w' = post_log w @ seg" "length seg \<le> length [0..r - 1]"
    "\<forall>a \<in> set seg. fst a = c \<and> fst (snd a) = m"
    "\<forall>a \<in> set (butlast seg). \<not> attempt_ok a"
    "sent \<longleftrightarrow> (\<exists>a \<in> set seg. attempt_ok a)"
    "\<not> sent \<longrightarrow> length seg = length [0..r - 1]"
    "[0..r - 1] \<noteq> [] \<longrightarrow> seg \<noteq> []"
    by blast
  from seg(2) len have "int (length seg) \<le> max 0 r" by linarith
  moreover have "(\<exists>a \<in> set seg. attempt_ok a) \<or> int (length seg) = max 0 r"
  proof (cases sent)
    case True
    with seg(5) show ?thesis by simp
  next
    case False
    with seg(6) have "length seg = length [0..r - 1]" by simp
    with len show ?thesis by presburger
  qed
  ultimately have "attempts_of r m c seg"
    using seg(3,4) by (simp add: attempts_of_def)
  with seg(1,5,7) ne show ?thesis by blast
qed

lemma send_to_chats_log:
  "send_to_chats env m r ids acc w = (Inr b, w') \<Longrightarrow>
     \<exists>segs. post_log w' = post_log w @ concat segs
       \<and> list_all2 (attempts_of r m) ids segs
       \<and> (b \<longleftrightarrow> acc \<and> (\<forall>seg \<in> set segs. \<exists>a \<in> set seg. attempt_ok a))
       \<and> (1 \<le> r \<longrightarrow> (\<forall>seg \<in> set segs. seg \<noteq> []))"
proof (induction ids arbitrary: acc w)
  case Nil
  then show ?case by simp
next
  case (Cons c ids)
  obtain res w1 where pa: "post_attempts env c m r [0..r - 1] w = (res, w1)"
    by (cases "post_attempts env c m r [0..r - 1] w")
  with Cons.prems obtain sent where res: "res = Inr sent"
    by (cases res) auto
  from post_attempts_range [OF pa [unfolded res]] obtain seg where seg:
    "post_log w1 = post_log w @ seg" "attempts_of r m c seg"
    "sent \<longleftrightarrow> (\<exists>a \<in> set seg. attempt_ok a)" "1 \<le> r \<longrightarrow> seg \<noteq> []"
    by blast
  obtain w2 where rest: "send_to_chats env m r ids (acc \<and> sent) w2 = (Inr b, w')"
    and w2: "post_log w2 = post_log w1"
    using Cons.prems pa res by (cases sent) (auto simp: logging_def)
  from Cons.IH [OF rest] obtain segs where segs:
    "post_log w' = post_log w2 @ concat segs"
    "list_all2 (attempts_of r m) ids segs"
    "b \<longleftrightarrow> (acc \<and> sent) \<and> (\<forall>seg \<in> set segs. \<exists>a \<in> set seg. attempt_ok a)"
    "1 \<le> r \<longrightarrow> (\<forall>seg \<in> set segs. seg \<noteq> [])"
    by blast
  show ?case
    using seg segs w2 by (intro exI [of _ "seg # segs"]) auto
qed

text \<open>
  C3, as stated, for every retry bound: a call that fails for one recipient still gives
  every remaining recipient at least one delivery attempt. With the retry bound 0,
  \<open>range(retries)\<close> is empty: the call to two recipients returns false and nobody
  received an attempt.
\<close>

theorem C3_no_attempt_counterexample:
  "fst (send_telegram_message (scripted_env [ascii ''1'', ascii ''2''] [] [] []) MsgStoppedManually 0 world0)
     = Inr False
   \<and> post_log (snd (send_telegram_message (scripted_env [ascii ''1'', ascii ''2''] [] [] [])
                     MsgStoppedManually 0 world0)) = []"
  by (simp add: send_telegram_message_def scripted_env_def world0_def logging_def)

text \<open>
  C3, amended: whenever \<open>send_telegram_message\<close> returns, the attempts it made are one
  block per recipient, in the order of the recipients; the block of a recipient holds at
  most \<open>retries\<close> attempts, all to that recipient, of which only the last can be
  successful (retrying stops at the first success), and holds all \<open>retries\<close> attempts when
  none succeeded; the result is true if and only if every block has a successful
  attempt; and for a retry bound of at least 1 no block is empty: a recipient whose
  retries are exhausted does not keep the remaining recipients from their attempts.
\<close>

theorem C3_send_telegram_message:
  assumes "send_telegram_message env message_text retries w = (Inr all_successful, w')"
  shows "\<exists>segs. post_log w' = post_log w @ concat segs
       \<and> list_all2 (attempts_of retries message_text) (TELEGRAM_CHAT_IDS env) segs
       \<and> (all_successful \<longleftrightarrow> (\<forall>seg \<in> set segs. \<exists>a \<in> set seg. attempt_ok a))
       \<and> (1 \<le> retries \<longrightarrow> (\<forall>seg \<in> set segs. seg \<noteq> []))"
  using send_to_chats_log [OF assms [unfolded send_telegram_message_def]] by simp

lemmas eval_send = send_telegram_message_def scripted_env_def world0_def logging_def
  try_post_def time_sleep_def upto.simps

text \<open>
  The theorem at work: the first recipient is reached at the second attempt, the second
  recipient fails three times; the result is false and both blocks are non-empty.
\<close>

theorem C3_send_telegram_message_witness:
  "fst (send_telegram_message
          (scripted_env [ascii ''1'', ascii ''2''] []
             [PostResponse 500 ''busy'', PostResponse 200 ''ok'', PostRaises (Timeout ''late''),
              PostResponse 500 ''busy'', PostResponse 502 ''bad''] [])
          MsgStoppedManually 3 world0) = Inr False
   \<and> (\<exists>segs. [(ascii ''1'', MsgStoppedManually, False), (ascii ''1'', MsgStoppedManually, True),
               (ascii ''2'', MsgStoppedManually, False), (ascii ''2'', MsgStoppedManually, False),
               (ascii ''2'', MsgStoppedManually, False)] = concat segs
         \<and> list_all2 (attempts_of 3 MsgStoppedManually) [ascii ''1'', ascii ''2''] segs
         \<and> \<not> (\<forall>seg \<in> set segs. \<exists>a \<in> set seg. attempt_ok a)
         \<and> (\<forall>seg \<in> set segs. seg \<noteq> []))"
proof -
  let ?env = "scripted_env [ascii ''1'', ascii ''2''] []
             [PostResponse 500 ''busy'', PostResponse 200 ''ok'', PostRaises (Timeout ''late''),
              PostResponse 500 ''busy'', PostResponse 502 ''bad''] []"
  let ?r = "send_telegram_message ?env MsgStoppedManually 3 world0"
  have res: "fst ?r = Inr False"
    by (simp add: eval_send)
  have log: "post_log (snd ?r) =
      [(ascii ''1'', MsgStoppedManually, False), (ascii ''1'', MsgStoppedManually, True),
       (ascii ''2'', MsgStoppedManually, False), (ascii ''2'', MsgStoppedManually, False),
       (ascii ''2'', MsgStoppedManually, False)]"
    by (simp add: eval_send)
  have ids: "TELEGRAM_CHAT_IDS ?env = [ascii ''1'', ascii ''2'']"
    by (simp add: scripted_env_def)
  have "?r = (Inr False, snd ?r)"
    using res by (simp add: prod_eq_iff)
  from C3_send_telegram_message [OF this] res show ?thesis
    unfolding log ids by (simp add: world0_def)
qed

subsection \<open>One iteration of the loop\<close>

lemma get_upbit_markets_frame:
  "get_count (snd (get_upbit_markets env w)) = Suc (get_count w)"
  "sent_log (snd (get_upbit_markets env w)) = sent_log w"
  "close_count (snd (get_upbit_markets env w)) = close_count w"
  by (simp_all add: get_upbit_markets_def Let_def logging_def split: sum.splits exn.splits prod.splits)

lemma get_upbit_markets_fetched:
  "fetch env (get_count w) = Inr (markets, latency) \<Longrightarrow>
     get_upbit_markets env w = (Inr (Some markets, latency), w\<lparr>get_count := Suc (get_count w)\<rparr>)"
  by (simp add: get_upbit_markets_def Let_def)

lemma get_upbit_markets_exception:
  "fetch env (get_count w) = Inl e \<Longrightarrow> e \<noteq> KeyboardInterrupt \<Longrightarrow>
     fst (get_upbit_markets env w) = Inr (None, 0)"
  by (cases e) (simp_all add: get_upbit_markets_def Let_def)

lemma get_upbit_markets_interrupt:
  "fetch env (get_count w) = Inl KeyboardInterrupt \<Longrightarrow>
     fst (get_upbit_markets env w) = Inl KeyboardInterrupt"
  by (simp add: get_upbit_markets_def Let_def)

lemma get_upbit_markets_failed:
  assumes "fetch_failed env (get_count w)"
  shows "\<exists>r. fst (get_upbit_markets env w) = Inr r \<and> (fst r = None \<or> fst r = Some {})"
proof (cases "fetch env (get_count w)")
  case (Inl e)
  with assms have "e \<noteq> KeyboardInterrupt" by (simp add: fetch_failed_def)
  from get_upbit_markets_exception [OF Inl this] show ?thesis by simp
next
  case (Inr p)
  obtain markets latency where p: "p = (markets, latency)" by (cases p)
  with assms Inr have "markets = {}" by (simp add: fetch_failed_def)
  with get_upbit_markets_fetched [OF Inr [unfolded p]] show ?thesis by simp
qed

lemmas frames = send_telegram_message_frame time_sleep_frame get_upbit_markets_frame

lemma skip_iteration_frame:
  "get_count (snd (skip_iteration env s w)) = get_count w"
  "close_count (snd (skip_iteration env s w)) = close_count w"
  "sent_log (snd (skip_iteration env s w)) =
     (if consecutive_errors s + 1 \<ge> max_consecutive_errors
      then sent_log w @ [MsgConsecutiveErrors (consecutive_errors s + 1)] else sent_log w)"
  by (simp_all add: skip_iteration_def Let_def split_beta frames logging_def split: sum.splits)

lemma skip_iteration_state:
  "fst (skip_iteration env s w) = Inr s' \<Longrightarrow>
     current_markets_set s' = current_markets_set s
     \<and> consecutive_errors s' =
         (if consecutive_errors s + 1 \<ge> max_consecutive_errors then 0
          else consecutive_errors s + 1)"
  by (auto simp add: skip_iteration_def Let_def split_beta split: sum.splits if_splits)

lemma announce_listings_frame:
  "get_count (snd (announce_listings env L lat w)) = get_count w"
  "close_count (snd (announce_listings env L lat w)) = close_count w"
  "sent_log (snd (announce_listings env L lat w)) =
     sent_log w @ [if card L = 1
                   then MsgNewListing (hd (sorted_list_of_set L)) (datetime_now env (get_count w)) lat
                   else MsgNewListings (sorted_list_of_set L) (datetime_now env (get_count w)) lat]"
  by (simp_all add: announce_listings_def Let_def frames logging_def)

lemma new_listings_same [simp]: "new_listings m m = {}"
  by (simp add: new_listings_def)

lemma compare_markets_frame:
  "get_count (snd (compare_markets env cur m lat w)) = get_count w"
  "close_count (snd (compare_markets env cur m lat w)) = close_count w"
  "sent_log (snd (compare_markets env cur m lat w)) =
     (if new_listings m cur = {} then sent_log w
      else sent_log w @
        [if card (new_listings m cur) = 1
         then MsgNewListing (hd (sorted_list_of_set (new_listings m cur)))
                (datetime_now env (get_count w)) lat
         else MsgNewListings (sorted_list_of_set (new_listings m cur))
                (datetime_now env (get_count w)) lat])"
proof -
  show "get_count (snd (compare_markets env cur m lat w)) = get_count w"
    by (cases "m = cur"; cases "new_listings m cur = {}")
       (simp_all add: compare_markets_def Let_def split_beta announce_listings_frame
          logging_def split: sum.splits)
  show "close_count (snd (compare_markets env cur m lat w)) = close_count w"
    by (cases "m = cur"; cases "new_listings m cur = {}")
       (simp_all add: compare_markets_def Let_def split_beta announce_listings_frame
          logging_def split: sum.splits)
  show "sent_log (snd (compare_markets env cur m lat w)) =
     (if new_listings m cur = {} then sent_log w
      else sent_log w @
        [if card (new_listings m cur) = 1
         then MsgNewListing (hd (sorted_list_of_set (new_listings m cur)))
                (datetime_now env (get_count w)) lat
         else MsgNewListings (sorted_list_of_set (new_listings m cur))
                (datetime_now env (get_count w)) lat])"
    by (cases "m = cur"; cases "new_listings m cur = {}")
       (simp_all add: compare_markets_def Let_def split_beta announce_listings_frame
          logging_def split: sum.splits)
qed

lemma compare_markets_result:
  "fst (compare_markets env cur m lat w) = Inr cur' \<Longrightarrow> cur' = m"
  by (cases "m = cur"; cases "new_listings m cur = {}")
     (auto simp add: compare_markets_def Let_def split_beta split: sum.splits)

lemma process_snapshot_frame:
  "get_count (snd (process_snapshot env s m lat w)) = get_count w"
  "close_count (snd (process_snapshot env s m lat w)) = close_count w"
  "sent_log (snd (process_snapshot env s m lat w)) =
     (if new_listings m (current_markets_set s) = {} then sent_log w
      else sent_log w @
        [if card (new_listings m (current_markets_set s)) = 1
         then MsgNewListing (hd (sorted_list_of_set (new_listings m (current_markets_set s))))
                (datetime_now env (get_count w)) lat
         else MsgNewListings (sorted_list_of_set (new_listings m (current_markets_set s)))
                (datetime_now env (get_count w)) lat])"
  by (cases "consecutive_errors s > 0";
      simp add: process_snapshot_def Let_def split_beta time_sleep_frame compare_markets_frame
        logging_def split: sum.splits)+

lemma process_snapshot_state:
  "fst (process_snapshot env s m lat w) = Inr s' \<Longrightarrow>
     current_markets_set s' = m \<and> consecutive_errors s' = 0"
  by (cases "consecutive_errors s > 0")
     (auto simp add: process_snapshot_def Let_def split_beta split: sum.splits
        dest: compare_markets_result)

lemma loop_body_failed:
  assumes "fetch_failed env (get_count w)"
  shows "\<exists>w1. loop_body env s w = skip_iteration env s w1
           \<and> get_count w1 = Suc (get_count w) \<and> sent_log w1 = sent_log w
           \<and> close_count w1 = close_count w"
proof -
  obtain res w1 where g: "get_upbit_markets env w = (res, w1)"
    by (cases "get_upbit_markets env w")
  from get_upbit_markets_failed [OF assms] g obtain r where
    r: "res = Inr r" "fst r = None \<or> fst r = Some {}" by auto
  from g get_upbit_markets_frame [of env w]
  have "get_count w1 = Suc (get_count w)" "sent_log w1 = sent_log w"
    "close_count w1 = close_count w" by simp_all
  moreover have "loop_body env s w = skip_iteration env s w1"
    using g r by (cases r) (auto simp: loop_body_def)
  ultimately show ?thesis by blast
qed

lemma loop_body_fetched:
  assumes "fetch env (get_count w) = Inr (markets, latency)" and "markets \<noteq> {}"
  shows "loop_body env s w =
           process_snapshot env s markets latency (w\<lparr>get_count := Suc (get_count w)\<rparr>)"
  using assms by (simp add: loop_body_def get_upbit_markets_fetched)

lemma loop_body_frame:
  "get_count (snd (loop_body env s w)) = Suc (get_count w)"
  "close_count (snd (loop_body env s w)) = close_count w"
  by (simp_all add: loop_body_def split_beta frames skip_iteration_frame process_snapshot_frame
        split: sum.splits option.splits)

subsection \<open>The loop\<close>

lemma running_loop_snoc:
  "running_loop env (Suc n) s w =
     (case running_loop env n s w of
        (Inl e, w1) \<Rightarrow> (Inl e, w1)
      | (Inr s1, w1) \<Rightarrow> loop_body env s1 w1)"
proof (induction n arbitrary: s w)
  case 0
  show ?case by (simp split: prod.splits sum.splits)
next
  case (Suc n)
  show ?case
  proof (cases "loop_body env s w")
    case (Pair res w1)
    show ?thesis
    proof (cases res)
      case (Inl e)
      with Pair show ?thesis by simp
    next
      case (Inr s1)
      have "running_loop env (Suc (Suc n)) s w = running_loop env (Suc n) s1 w1"
        using Pair Inr by simp
      also have "\<dots> = (case running_loop env n s1 w1 of
                        (Inl e, w2) \<Rightarrow> (Inl e, w2)
                      | (Inr s2, w2) \<Rightarrow> loop_body env s2 w2)"
        by (rule Suc.IH)
      also have "running_loop env n s1 w1 = running_loop env (Suc n) s w"
        using Pair Inr by simp
      finally show ?thesis .
    qed
  qed
qed

lemma running_loop_Suc_Inr:
  assumes "running_loop env (Suc n) s w = (Inr s2, w2)"
  obtains s1 w1 where "running_loop env n s w = (Inr s1, w1)"
    and "loop_body env s1 w1 = (Inr s2, w2)"
  using assms unfolding running_loop_snoc
  by (auto split: prod.splits sum.splits)

lemma running_loop_frame:
  "close_count (snd (running_loop env n s w)) = close_count w"
proof (induction n arbitrary: s w)
  case 0
  show ?case by simp
next
  case (Suc n)
  show ?case
    using Suc.IH loop_body_frame(2) [of env s w]
    by (cases "loop_body env s w") (auto split: sum.splits)
qed

lemma running_loop_get_count:
  "running_loop env n s w = (Inr s', w') \<Longrightarrow> get_count w' = get_count w + n"
proof (induction n arbitrary: s' w')
  case 0
  then show ?case by simp
next
  case (Suc n)
  from Suc.prems obtain s1 w1 where run: "running_loop env n s w = (Inr s1, w1)"
    and body: "loop_body env s1 w1 = (Inr s', w')"
    by (rule running_loop_Suc_Inr)
  from loop_body_frame(1) [of env s1 w1] body have "get_count w' = Suc (get_count w1)"
    by simp
  with Suc.IH [OF run] show ?case by simp
qed


lemma loop_body_current:
  assumes "loop_body env s w = (Inr s', w')"
  shows "current_markets_set s' =
           (case fetch env (get_count w) of
              Inl e \<Rightarrow> current_markets_set s
            | Inr (markets, latency) \<Rightarrow>
                if markets \<noteq> {} then markets else current_markets_set s)"
proof (cases "fetch_failed env (get_count w)")
  case True
  from loop_body_failed [OF True, of s] obtain w1 where
    "loop_body env s w = skip_iteration env s w1" by blast
  with assms have "fst (skip_iteration env s w1) = Inr s'" by simp
  from skip_iteration_state [OF this] True show ?thesis
    by (auto simp: fetch_failed_def split: sum.splits)
next
  case False
  show ?thesis
  proof (cases "fetch env (get_count w)")
    case (Inl e)
    with False have "e = KeyboardInterrupt" by (simp add: fetch_failed_def)
    with Inl have "fst (get_upbit_markets env w) = Inl KeyboardInterrupt"
      by (simp add: get_upbit_markets_interrupt)
    with assms show ?thesis by (simp add: loop_body_def split_beta)
  next
    case (Inr p)
    obtain markets latency where p: "p = (markets, latency)" by (cases p)
    with False Inr have ne: "markets \<noteq> {}" by (simp add: fetch_failed_def)
    from loop_body_fetched [OF Inr [unfolded p] ne, of s] assms
    have "fst (process_snapshot env s markets latency (w\<lparr>get_count := Suc (get_count w)\<rparr>)) = Inr s'"
      by (metis fst_conv)
    from process_snapshot_state [OF this] Inr p ne show ?thesis by simp
  qed
qed

lemma running_loop_current:
  "running_loop env n s w = (Inr s', w') \<Longrightarrow>
     current_markets_set s' = last_nonempty_fetched env (get_count w) n (current_markets_set s)"
proof (induction n arbitrary: s' w')
  case 0
  then show ?case by simp
next
  case (Suc n)
  from Suc.prems obtain s1 w1 where run: "running_loop env n s w = (Inr s1, w1)"
    and body: "loop_body env s1 w1 = (Inr s', w')"
    by (rule running_loop_Suc_Inr)
  from loop_body_current [OF body] Suc.IH [OF run] running_loop_get_count [OF run]
  show ?case by (simp split: sum.splits prod.splits)
qed

text \<open>
  C1, amended: let the loop have completed \<open>n\<close> iterations from any state, and let it
  complete one more. Then the current set after the \<open>n\<close> iterations is the set returned
  by the last fetch among them that returned a non-empty set (the set the loop started
  with when there was none); if the fetch of the next iteration returns the failure
  marker, that iteration leaves the current set unchanged; if it returns the empty set,
  that iteration leaves the current set unchanged too; and if that iteration changes the
  current set, the new one is the set which its fetch returned.
\<close>

theorem C1_current_markets_set:
  assumes "running_loop env n s w = (Inr s1, w1)"
    and "loop_body env s1 w1 = (Inr s2, w2)"
  shows "current_markets_set s1 = last_nonempty_fetched env (get_count w) n (current_markets_set s)
       \<and> ((\<exists>e. fetch env (get_count w1) = Inl e) \<longrightarrow>
            current_markets_set s2 = current_markets_set s1)
       \<and> ((\<exists>latency. fetch env (get_count w1) = Inr ({}, latency)) \<longrightarrow>
            current_markets_set s2 = current_markets_set s1)
       \<and> (current_markets_set s2 \<noteq> current_markets_set s1 \<longrightarrow>
            (\<exists>latency. fetch env (get_count w1) = Inr (current_markets_set s2, latency)))"
  using running_loop_current [OF assms(1)] loop_body_current [OF assms(2)]
  by (auto split: sum.splits prod.splits if_splits)

lemmas eval_loop = loop_body_def get_upbit_markets_def fetch_def skip_iteration_def
  process_snapshot_def compare_markets_def announce_listings_def markets_response_def
  new_listings_def delisted_pairs_def max_consecutive_errors_def CHECK_INTERVAL_SECONDS_def
  Let_def eval_send


text \<open>
  C1, as stated: the current set is always the last successfully fetched set. A fetch
  that is answered with status 200 and an empty list succeeds with the empty set, and
  line 186 takes it for a failure: after this iteration the last successfully fetched
  set is empty and the current set is the old one.
\<close>

theorem C1_empty_fetch_counterexample:
  "fetch (scripted_env [ascii ''1''] [markets_response []] [] []) 0 = Inr ({}, 1 / 4)
   \<and> fst (running_loop (scripted_env [ascii ''1''] [markets_response []] [] []) 1
          \<lparr>current_markets_set = {''KRW-BTC''}, consecutive_errors = 0\<rparr> world0)
       = Inr \<lparr>current_markets_set = {''KRW-BTC''}, consecutive_errors = 1\<rparr>
   \<and> last_successfully_fetched (scripted_env [ascii ''1''] [markets_response []] [] [])
         (get_count world0) 1 {''KRW-BTC''} = {}
   \<and> current_markets_set \<lparr>current_markets_set = {''KRW-BTC''}, consecutive_errors = 1\<rparr>
       \<noteq> last_successfully_fetched (scripted_env [ascii ''1''] [markets_response []] [] [])
           (get_count world0) 1 {''KRW-BTC''}"
  by (simp add: eval_loop)

text \<open>
  The theorem at work: the first fetch times out and the second returns two markets.
\<close>

theorem C1_current_markets_set_witness:
  "fst (running_loop
          (scripted_env [ascii ''1'']
             [GetRaises (Timeout ''slow''), markets_response [''KRW-BTC'', ''KRW-ETH'']] [] [])
          1 \<lparr>current_markets_set = {''KRW-BTC''}, consecutive_errors = 0\<rparr> world0)
     = Inr \<lparr>current_markets_set = {''KRW-BTC''}, consecutive_errors = 1\<rparr>
   \<and> fst (loop_body
          (scripted_env [ascii ''1'']
             [GetRaises (Timeout ''slow''), markets_response [''KRW-BTC'', ''KRW-ETH'']] [] [])
          \<lparr>current_markets_set = {''KRW-BTC''}, consecutive_errors = 1\<rparr>
          (snd (running_loop
             (scripted_env [ascii ''1'']
                [GetRaises (Timeout ''slow''), markets_response [''KRW-BTC'', ''KRW-ETH'']] [] [])
             1 \<lparr>current_markets_set = {''KRW-BTC''}, consecutive_errors = 0\<rparr> world0)))
     = Inr \<lparr>current_markets_set = {''KRW-BTC'', ''KRW-ETH''}, consecutive_errors = 0\<rparr>
   \<and> {''KRW-BTC''} =
       last_nonempty_fetched
         (scripted_env [ascii ''1'']
            [GetRaises (Timeout ''slow''), markets_response [''KRW-BTC'', ''KRW-ETH'']] [] [])
         0 1 {''KRW-BTC''}
   \<and> (\<exists>latency.
         fetch (scripted_env [ascii ''1'']
                  [GetRaises (Timeout ''slow''), markets_response [''KRW-BTC'', ''KRW-ETH'']] [] [])
           1 = Inr ({''KRW-BTC'', ''KRW-ETH''}, latency))"
proof -
  let ?E = "scripted_env [ascii ''1'']
             [GetRaises (Timeout ''slow''), markets_response [''KRW-BTC'', ''KRW-ETH'']] [] []"
  let ?S = "\<lparr>current_markets_set = {''KRW-BTC''}, consecutive_errors = 0\<rparr>"
  let ?S1 = "\<lparr>current_markets_set = {''KRW-BTC''}, consecutive_errors = 1\<rparr>"
  let ?S2 = "\<lparr>current_markets_set = {''KRW-BTC'', ''KRW-ETH''}, consecutive_errors = 0\<rparr>"
  let ?r1 = "running_loop ?E 1 ?S world0"
  let ?r2 = "loop_body ?E ?S1 (snd ?r1)"
  have a: "fst ?r1 = Inr ?S1"
    by (simp add: eval_loop)
  have b: "fst ?r2 = Inr ?S2"
    by (simp add: eval_loop)
  have g: "get_count (snd ?r1) = 1" "get_count world0 = 0"
    by (simp_all add: eval_loop)
  have ne: "{''KRW-BTC'', ''KRW-ETH''} \<noteq> {''KRW-BTC''}"
    by auto
  have r1: "?r1 = (Inr ?S1, snd ?r1)"
    using a by (simp add: prod_eq_iff)
  have r2: "?r2 = (Inr ?S2, snd ?r2)"
    using b by (simp add: prod_eq_iff)
  from C1_current_markets_set [OF r1 r2] ne
  have "{''KRW-BTC''} = last_nonempty_fetched ?E 0 1 {''KRW-BTC''}"
    and "\<exists>latency. fetch ?E 1 = Inr ({''KRW-BTC'', ''KRW-ETH''}, latency)"
    unfolding g by simp_all
  with a b show ?thesis by blast
qed

subsection \<open>Consecutive failures\<close>






subsection \<open>Calls that return\<close>

text \<open>
  Without an interrupt every call returns and every iteration of the loop completes.
\<close>

lemma uninterrupted_scripted:
  assumes "\<forall>e \<in> set sleeps. e = None" and "PostRaises KeyboardInterrupt \<notin> set posts"
  shows "uninterrupted (scripted_env chat_ids gets posts sleeps)"
  using assms by (auto simp: uninterrupted_def scripted_env_def dest: nth_mem)

lemma time_sleep_returns:
  "uninterrupted env \<Longrightarrow> fst (time_sleep env d w) = Inr ()"
  by (simp add: uninterrupted_def time_sleep_def Let_def)

lemma try_post_returns:
  "uninterrupted env \<Longrightarrow> \<exists>b. fst (try_post env c m a r w) = Inr b"
proof -
  assume u: "uninterrupted env"
  show ?thesis
  proof (cases "session_post env (length (post_log w)) c m")
    case (PostRaises e)
    with u have "e \<noteq> KeyboardInterrupt" by (auto simp: uninterrupted_def)
    with PostRaises have "fst (try_post env c m a r w) = Inr False"
      by (simp add: try_post_def)
    then show ?thesis ..
  next
    case (PostResponse status_code body)
    then have "fst (try_post env c m a r w) = Inr (status_code = 200)"
      by (simp add: try_post_def)
    then show ?thesis ..
  qed
qed

lemma post_attempts_returns:
  assumes "uninterrupted env"
  shows "\<exists>b. fst (post_attempts env c m r as w) = Inr b"
proof (induction as arbitrary: w)
  case Nil
  show ?case by (rule exI [of _ False]) simp
next
  case (Cons a as)
  from try_post_returns [OF assms, of c m a r w] obtain b where
    b: "fst (try_post env c m a r w) = Inr b" by blast
  show ?case
    using b time_sleep_returns [OF assms, of "Seconds 1" "snd (try_post env c m a r w)"]
      Cons.IH [of "snd (try_post env c m a r w)"]
      Cons.IH [of "snd (time_sleep env (Seconds 1) (snd (try_post env c m a r w)))"]
    by (cases b) (auto simp add: split_beta)
qed

lemma send_to_chats_returns:
  assumes "uninterrupted env"
  shows "\<exists>b. fst (send_to_chats env m r ids acc w) = Inr b"
proof (induction ids arbitrary: acc w)
  case Nil
  show ?case by simp
next
  case (Cons c ids)
  let ?p = "post_attempts env c m r [0..r - 1] w"
  from post_attempts_returns [OF assms, of c m r "[0..r - 1]" w] obtain b where
    b: "fst ?p = Inr b" by blast
  show ?case
    using b Cons.IH [of False "logging (LogNotDelivered c r) (snd ?p)"] Cons.IH [of acc "snd ?p"]
    by (cases b) (simp_all add: split_beta)
qed

lemma send_telegram_message_returns:
  "uninterrupted env \<Longrightarrow> \<exists>b. fst (send_telegram_message env m r w) = Inr b"
  by (simp add: send_telegram_message_def send_to_chats_returns)

lemma skip_iteration_returns:
  assumes "uninterrupted env"
  shows "\<exists>s'. fst (skip_iteration env s w) = Inr s'"
proof -
  let ?w1 = "logging (LogSkipIteration (consecutive_errors s + 1) max_consecutive_errors) w"
  let ?send = "send_telegram_message env (MsgConsecutiveErrors (consecutive_errors s + 1)) 3
                 (logging (LogConsecutiveErrors (consecutive_errors s + 1)) ?w1)"
  from send_telegram_message_returns [OF assms] obtain b where "fst ?send = Inr b" by blast
  then show ?thesis
    using time_sleep_returns [OF assms]
    by (simp add: skip_iteration_def Let_def split_beta)
qed

lemma compare_markets_returns:
  assumes "uninterrupted env"
  shows "\<exists>c. fst (compare_markets env cur m lat w) = Inr c"
proof -
  let ?a = "announce_listings env (new_listings m cur) lat w"
  have "\<exists>b. fst ?a = Inr b"
    using send_telegram_message_returns [OF assms]
    by (simp add: announce_listings_def Let_def)
  then obtain b where "fst ?a = Inr b" by blast
  then show ?thesis
    by (simp add: compare_markets_def Let_def split_beta)
qed

lemma process_snapshot_returns:
  assumes "uninterrupted env"
  shows "\<exists>s'. fst (process_snapshot env s m lat w) = Inr s'"
proof -
  let ?w1 = "if consecutive_errors s > 0 then logging LogConnectionRestored w else w"
  from compare_markets_returns [OF assms] obtain c where
    "fst (compare_markets env (current_markets_set s) m lat ?w1) = Inr c" by blast
  then show ?thesis
    using time_sleep_returns [OF assms]
    by (simp add: process_snapshot_def Let_def split_beta)
qed

lemma get_upbit_markets_returns:
  "fetch env (get_count w) \<noteq> Inl KeyboardInterrupt \<Longrightarrow> \<exists>r. fst (get_upbit_markets env w) = Inr r"
  by (auto simp add: get_upbit_markets_def Let_def split: sum.splits exn.splits)

lemma loop_body_returns:
  assumes "uninterrupted env" and "fetch env (get_count w) \<noteq> Inl KeyboardInterrupt"
  shows "\<exists>s'. fst (loop_body env s w) = Inr s'"
proof -
  from get_upbit_markets_returns [OF assms(2)] obtain r where
    "fst (get_upbit_markets env w) = Inr r" by blast
  moreover obtain markets latency where "r = (markets, latency)" by (cases r)
  ultimately have g: "fst (get_upbit_markets env w) = Inr (markets, latency)" by simp
  let ?w1 = "snd (get_upbit_markets env w)"
  show ?thesis
  proof (cases "markets = None \<or> markets = Some {}")
    case True
    with g have "loop_body env s w = skip_iteration env s ?w1"
      by (auto simp add: loop_body_def split_beta)
    with skip_iteration_returns [OF assms(1)] show ?thesis by simp
  next
    case False
    then obtain ms where "markets = Some ms" "ms \<noteq> {}" by auto
    with g have "loop_body env s w = process_snapshot env s ms latency ?w1"
      by (simp add: loop_body_def split_beta)
    with process_snapshot_returns [OF assms(1)] show ?thesis by simp
  qed
qed

lemma running_loop_returns:
  assumes "uninterrupted env"
    and "\<forall>i<n. fetch env (get_count w + i) \<noteq> Inl KeyboardInterrupt"
  shows "\<exists>s'. fst (running_loop env n s w) = Inr s'"
  using assms(2)
proof (induction n)
  case 0
  show ?case by simp
next
  case (Suc n)
  then obtain s1 where s1: "fst (running_loop env n s w) = Inr s1" by auto
  let ?w1 = "snd (running_loop env n s w)"
  have run: "running_loop env n s w = (Inr s1, ?w1)"
    using s1 by (simp add: prod_eq_iff)
  from running_loop_get_count [OF run] Suc.prems
  have "fetch env (get_count ?w1) \<noteq> Inl KeyboardInterrupt" by simp
  from loop_body_returns [OF assms(1) this] show ?case
    unfolding running_loop_snoc by (simp add: split_beta s1)
qed

subsection \<open>Messages about new pairs\<close>

lemma fetch_finite:
  "fetch env k = Inr (markets, latency) \<Longrightarrow> finite markets"
  by (auto simp: fetch_def split: get_outcome.splits if_splits sum.splits)

lemma new_listings_finite:
  "finite new \<Longrightarrow> finite (new_listings new current)"
  by (simp add: new_listings_def)

lemma time_sleep_log_lines:
  "log_lines (snd (time_sleep env d w)) = log_lines w"
  by (simp add: time_sleep_def Let_def split: option.splits)

lemma compare_markets_delisted:
  assumes "fst (compare_markets env cur m lat w) = Inr c"
    and "delisted_pairs m cur \<noteq> {}"
  shows "\<exists>ls. log_lines (snd (compare_markets env cur m lat w)) =
           ls @ [LogDelisted (delisted_pairs m cur)]"
proof -
  from assms(2) have "m \<noteq> cur" by (auto simp: delisted_pairs_def)
  with assms show ?thesis
    by (cases "new_listings m cur = {}")
       (auto simp add: compare_markets_def Let_def split_beta logging_def split: sum.splits)
qed

lemma process_snapshot_delisted:
  assumes "fst (process_snapshot env s m lat w) = Inr s'"
    and "delisted_pairs m (current_markets_set s) \<noteq> {}"
  shows "LogDelisted (delisted_pairs m (current_markets_set s))
           \<in> set (log_lines (snd (process_snapshot env s m lat w)))"
proof -
  let ?w1 = "if consecutive_errors s > 0 then logging LogConnectionRestored w else w"
  let ?c = "compare_markets env (current_markets_set s) m lat ?w1"
  from assms(1) obtain c where c: "fst ?c = Inr c"
    by (auto simp add: process_snapshot_def Let_def split_beta split: sum.splits)
  from compare_markets_delisted [OF c assms(2)] obtain ls where
    ls: "log_lines (snd ?c) = ls @ [LogDelisted (delisted_pairs m (current_markets_set s))]"
    by blast
  have "log_lines (snd (process_snapshot env s m lat w)) = log_lines (snd ?c)"
    using c by (simp add: process_snapshot_def Let_def split_beta time_sleep_log_lines
        split: sum.splits)
  with ls show ?thesis by simp
qed

text \<open>
  C6: in an iteration whose fetch returns a non-empty set, let \<open>added\<close> be the fetched set
  without the current one and \<open>removed\<close> the current set without the fetched one. If
  \<open>added\<close> is one ticker, exactly one message is dispatched, the single-pair message
  with this ticker. If \<open>added\<close> has more than one ticker, exactly one message is
  dispatched, the batched message, whose list is sorted, without repetition, and holds
  the tickers of \<open>added\<close>. If \<open>added\<close> is empty, no message is dispatched, whatever
  \<open>removed\<close> is; and a non-empty \<open>removed\<close> is in the log of every iteration that
  completes.
\<close>

theorem C6_new_listings_message:
  assumes "fetch env (get_count w) = Inr (new_markets_set, latency)"
    and "new_markets_set \<noteq> {}"
  shows "(\<forall>pair. new_listings new_markets_set (current_markets_set s) = {pair} \<longrightarrow>
            sent_log (snd (loop_body env s w)) =
              sent_log w @ [MsgNewListing pair (datetime_now env (Suc (get_count w))) latency])
       \<and> (1 < card (new_listings new_markets_set (current_markets_set s)) \<longrightarrow>
            (\<exists>pairs. sent_log (snd (loop_body env s w)) =
                       sent_log w @ [MsgNewListings pairs (datetime_now env (Suc (get_count w))) latency]
                  \<and> sorted pairs \<and> distinct pairs
                  \<and> set pairs = new_listings new_markets_set (current_markets_set s)))
       \<and> (new_listings new_markets_set (current_markets_set s) = {} \<longrightarrow>
            sent_log (snd (loop_body env s w)) = sent_log w)
       \<and> (\<forall>s'. delisted_pairs new_markets_set (current_markets_set s) \<noteq> {}
              \<and> fst (loop_body env s w) = Inr s' \<longrightarrow>
            LogDelisted (delisted_pairs new_markets_set (current_markets_set s))
              \<in> set (log_lines (snd (loop_body env s w))))"
proof -
  let ?w = "w\<lparr>get_count := Suc (get_count w)\<rparr>"
  let ?L = "new_listings new_markets_set (current_markets_set s)"
  let ?D = "delisted_pairs new_markets_set (current_markets_set s)"
  have body: "loop_body env s w = process_snapshot env s new_markets_set latency ?w"
    by (rule loop_body_fetched [OF assms])
  have fin: "finite ?L"
    using fetch_finite [OF assms(1)] by (rule new_listings_finite)
  note sent = process_snapshot_frame(3) [of env s new_markets_set latency ?w]
  have one: "\<forall>pair. ?L = {pair} \<longrightarrow>
            sent_log (snd (loop_body env s w)) =
              sent_log w @ [MsgNewListing pair (datetime_now env (Suc (get_count w))) latency]"
    unfolding body sent by simp
  have many: "1 < card ?L \<longrightarrow>
            (\<exists>pairs. sent_log (snd (loop_body env s w)) =
                       sent_log w @ [MsgNewListings pairs (datetime_now env (Suc (get_count w))) latency]
                  \<and> sorted pairs \<and> distinct pairs \<and> set pairs = ?L)"
  proof
    assume c: "1 < card ?L"
    then have "?L \<noteq> {}" by auto
    with c have "sent_log (snd (loop_body env s w)) =
        sent_log w @ [MsgNewListings (sorted_list_of_set ?L) (datetime_now env (Suc (get_count w))) latency]"
      unfolding body sent by simp
    with fin show "\<exists>pairs. sent_log (snd (loop_body env s w)) =
                       sent_log w @ [MsgNewListings pairs (datetime_now env (Suc (get_count w))) latency]
                  \<and> sorted pairs \<and> distinct pairs \<and> set pairs = ?L"
      by (intro exI [of _ "sorted_list_of_set ?L"]) simp
  qed
  have none: "?L = {} \<longrightarrow> sent_log (snd (loop_body env s w)) = sent_log w"
    unfolding body sent by simp
  have del: "\<forall>s'. ?D \<noteq> {} \<and> fst (loop_body env s w) = Inr s' \<longrightarrow>
            LogDelisted ?D \<in> set (log_lines (snd (loop_body env s w)))"
    unfolding body using process_snapshot_delisted by blast
  from one many none del show ?thesis by blast
qed

text \<open>
  The theorem at work: two new pairs and a removed one give the batched message in
  alphabetical order and a log line; one new pair gives the single-pair message; a
  removed pair alone gives no message.
\<close>

theorem C6_new_listings_message_witness:
  "sent_log (snd (loop_body
       (scripted_env [ascii ''1''] [markets_response [''KRW-BTC'', ''KRW-SOL'', ''KRW-ETH'']] [] [])
       \<lparr>current_markets_set = {''KRW-BTC'', ''KRW-XRP''}, consecutive_errors = 0\<rparr> world0))
     = [MsgNewListings [''KRW-ETH'', ''KRW-SOL''] 1 (1 / 4)]
   \<and> LogDelisted {''KRW-XRP''} \<in> set (log_lines (snd (loop_body
       (scripted_env [ascii ''1''] [markets_response [''KRW-BTC'', ''KRW-SOL'', ''KRW-ETH'']] [] [])
       \<lparr>current_markets_set = {''KRW-BTC'', ''KRW-XRP''}, consecutive_errors = 0\<rparr> world0)))
   \<and> sent_log (snd (loop_body
       (scripted_env [ascii ''1''] [markets_response [''KRW-BTC'', ''KRW-ETH'', ''KRW-XRP'']] [] [])
       \<lparr>current_markets_set = {''KRW-BTC'', ''KRW-ETH''}, consecutive_errors = 0\<rparr> world0))
     = [MsgNewListing ''KRW-XRP'' 1 (1 / 4)]
   \<and> sent_log (snd (loop_body
       (scripted_env [ascii ''1''] [markets_response [''KRW-BTC'']] [] [])
       \<lparr>current_markets_set = {''KRW-BTC'', ''KRW-ETH''}, consecutive_errors = 0\<rparr> world0))
     = []"
proof -
  let ?E = "scripted_env [ascii ''1''] [markets_response [''KRW-BTC'', ''KRW-SOL'', ''KRW-ETH'']] [] []"
  let ?S = "\<lparr>current_markets_set = {''KRW-BTC'', ''KRW-XRP''}, consecutive_errors = 0\<rparr>"
  let ?F = "scripted_env [ascii ''1''] [markets_response [''KRW-BTC'', ''KRW-ETH'', ''KRW-XRP'']] [] []"
  let ?G = "scripted_env [ascii ''1''] [markets_response [''KRW-BTC'']] [] []"
  let ?T = "\<lparr>current_markets_set = {''KRW-BTC'', ''KRW-ETH''}, consecutive_errors = 0\<rparr>"
  have w0: "get_count world0 = 0" "sent_log world0 = []"
    by (simp_all add: world0_def)
  have now: "datetime_now ?E (Suc 0) = 1" "datetime_now ?F (Suc 0) = 1"
    by (simp_all add: scripted_env_def)
  txt \<open>Two new pairs and one removed pair.\<close>
  have fE: "fetch ?E (get_count world0) = Inr ({''KRW-BTC'', ''KRW-SOL'', ''KRW-ETH''}, 1 / 4)"
    by (simp add: fetch_def scripted_env_def markets_response_def world0_def)
  have addedE: "new_listings {''KRW-BTC'', ''KRW-SOL'', ''KRW-ETH''} (current_markets_set ?S)
      = {''KRW-SOL'', ''KRW-ETH''}"
    by (auto simp: new_listings_def)
  have removedE: "delisted_pairs {''KRW-BTC'', ''KRW-SOL'', ''KRW-ETH''} (current_markets_set ?S)
      = {''KRW-XRP''}"
    by (auto simp: delisted_pairs_def)
  have cardE: "1 < card {''KRW-SOL'', ''KRW-ETH''}"
    by simp
  have uE: "uninterrupted ?E"
    by (rule uninterrupted_scripted) simp_all
  from fE have "fetch ?E (get_count world0) \<noteq> Inl KeyboardInterrupt" by simp
  from loop_body_returns [OF uE this, of ?S] obtain s' where
    s': "fst (loop_body ?E ?S world0) = Inr s'" by blast
  note E = C6_new_listings_message [OF fE insert_not_empty, of ?S, unfolded addedE removedE w0 now]
  from E cardE obtain pairs where pairs:
    "sent_log (snd (loop_body ?E ?S world0)) = [] @ [MsgNewListings pairs 1 (1 / 4)]"
    "sorted pairs" "distinct pairs" "set pairs = {''KRW-SOL'', ''KRW-ETH''}"
    by blast
  have "sorted [''KRW-ETH'', ''KRW-SOL'']" "distinct [''KRW-ETH'', ''KRW-SOL'']"
    "set [''KRW-ETH'', ''KRW-SOL''] = {''KRW-SOL'', ''KRW-ETH''}"
    by auto
  with pairs(2-4) have "pairs = [''KRW-ETH'', ''KRW-SOL'']"
    by (metis sorted_distinct_set_unique)
  with pairs(1) have 1: "sent_log (snd (loop_body ?E ?S world0))
      = [MsgNewListings [''KRW-ETH'', ''KRW-SOL''] 1 (1 / 4)]"
    by simp
  from E s' have 2: "LogDelisted {''KRW-XRP''} \<in> set (log_lines (snd (loop_body ?E ?S world0)))"
    by blast
  txt \<open>One new pair.\<close>
  have fF: "fetch ?F (get_count world0) = Inr ({''KRW-BTC'', ''KRW-ETH'', ''KRW-XRP''}, 1 / 4)"
    by (simp add: fetch_def scripted_env_def markets_response_def world0_def)
  have addedF: "new_listings {''KRW-BTC'', ''KRW-ETH'', ''KRW-XRP''} (current_markets_set ?T)
      = {''KRW-XRP''}"
    by (auto simp: new_listings_def)
  from C6_new_listings_message [OF fF insert_not_empty, of ?T, unfolded addedF w0 now]
  have 3: "sent_log (snd (loop_body ?F ?T world0)) = [MsgNewListing ''KRW-XRP'' 1 (1 / 4)]"
    by simp
  txt \<open>No new pair and one removed pair.\<close>
  have fG: "fetch ?G (get_count world0) = Inr ({''KRW-BTC''}, 1 / 4)"
    by (simp add: fetch_def scripted_env_def markets_response_def world0_def)
  have addedG: "new_listings {''KRW-BTC''} (current_markets_set ?T) = {}"
    by (auto simp: new_listings_def)
  from C6_new_listings_message [OF fG insert_not_empty, of ?T, unfolded addedG w0]
  have 4: "sent_log (snd (loop_body ?G ?T world0)) = []"
    by simp
  from 1 2 3 4 show ?thesis by blast
qed

subsection \<open>The attempts for the initial list\<close>

lemma wait_attempts_frame:
  "sent_log (snd (wait_attempts env as w)) = sent_log w
   \<and> close_count (snd (wait_attempts env as w)) = close_count w"
proof (induction as arbitrary: w)
  case Nil
  show ?case by simp
next
  case (Cons a as)
  let ?g = "get_upbit_markets env (logging (LogInitialAttempt (a + 1) MAX_RETRIES) w)"
  let ?s = "time_sleep env RETRY_DELAY (logging (LogRetryIn RETRY_DELAY) (snd ?g))"
  have g: "sent_log (snd ?g) = sent_log w" "close_count (snd ?g) = close_count w"
    by (simp_all add: get_upbit_markets_frame logging_def)
  have s: "sent_log (snd ?s) = sent_log w" "close_count (snd ?s) = close_count w"
    using g by (simp_all add: time_sleep_frame logging_def)
  show ?case
    using g s Cons.IH [of "snd ?g"] Cons.IH [of "snd ?s"]
    by (simp add: split_beta split: sum.splits)
qed

lemma wait_attempts_step:
  assumes "uninterrupted env" and "fetch_failed env (get_count w)"
  shows "\<exists>w1. wait_attempts env (a # as) w = wait_attempts env as w1
           \<and> get_count w1 = Suc (get_count w)
           \<and> sleep_log w1 = sleep_log w @ (if a < MAX_RETRIES - 1 then [RETRY_DELAY] else [])"
proof -
  let ?w0 = "logging (LogInitialAttempt (a + 1) MAX_RETRIES) w"
  let ?g = "get_upbit_markets env ?w0"
  let ?s = "time_sleep env RETRY_DELAY (logging (LogRetryIn RETRY_DELAY) (snd ?g))"
  have "fetch_failed env (get_count ?w0)"
    using assms(2) by (simp add: logging_def)
  from get_upbit_markets_failed [OF this] obtain r where
    r: "fst ?g = Inr r" "fst r = None \<or> fst r = Some {}" by blast
  have gs: "sleep_log (snd ?g) = sleep_log w"
    by (simp add: get_upbit_markets_def Let_def logging_def split: sum.splits exn.splits prod.splits)
  have gc: "get_count (snd ?g) = Suc (get_count w)"
    by (simp add: get_upbit_markets_frame logging_def)
  have sl: "fst ?s = Inr ()"
    by (rule time_sleep_returns [OF assms(1)])
  have sc: "get_count (snd ?s) = Suc (get_count w)"
    using gc by (simp add: time_sleep_frame logging_def)
  have ss: "sleep_log (snd ?s) = sleep_log w @ [RETRY_DELAY]"
    using gs by (simp add: time_sleep_def Let_def logging_def split: option.splits)
  show ?thesis
  proof (cases "a < MAX_RETRIES - 1")
    case True
    have "wait_attempts env (a # as) w = wait_attempts env as (snd ?s)"
      using r sl True by (cases r) (auto simp add: split_beta)
    with sc ss True show ?thesis by auto
  next
    case False
    have "wait_attempts env (a # as) w = wait_attempts env as (snd ?g)"
      using r False by (cases r) (auto simp add: split_beta)
    with gc gs False show ?thesis by auto
  qed
qed

lemma wait_attempts_failed:
  assumes "uninterrupted env"
  shows "\<forall>j<length as. fetch_failed env (get_count w + j) \<Longrightarrow>
     fst (wait_attempts env as w) = Inr None
     \<and> get_count (snd (wait_attempts env as w)) = get_count w + length as
     \<and> sleep_log (snd (wait_attempts env as w)) =
         sleep_log w @ replicate (length (filter (\<lambda>a. a < MAX_RETRIES - 1) as)) RETRY_DELAY"
proof (induction as arbitrary: w)
  case Nil
  show ?case by simp
next
  case (Cons a as)
  from Cons.prems have "fetch_failed env (get_count w)" by auto
  from wait_attempts_step [OF assms this, of a as] obtain w1 where w1:
    "wait_attempts env (a # as) w = wait_attempts env as w1"
    "get_count w1 = Suc (get_count w)"
    "sleep_log w1 = sleep_log w @ (if a < MAX_RETRIES - 1 then [RETRY_DELAY] else [])"
    by blast
  have "\<forall>j<length as. fetch_failed env (get_count w1 + j)"
    using Cons.prems w1(2) by auto
  from Cons.IH [OF this] w1 show ?case
    by (simp add: replicate_app_Cons_same)
qed

lemma wait_attempts_fetched:
  assumes "uninterrupted env"
  shows "i < length as \<Longrightarrow> \<forall>j<i. fetch_failed env (get_count w + j) \<Longrightarrow>
     fetch env (get_count w + i) = Inr (markets, latency) \<Longrightarrow> markets \<noteq> {} \<Longrightarrow>
     fst (wait_attempts env as w) = Inr (Some markets)
     \<and> get_count (snd (wait_attempts env as w)) = get_count w + i + 1"
proof (induction as arbitrary: w i)
  case Nil
  then show ?case by simp
next
  case (Cons a as)
  show ?case
  proof (cases i)
    case 0
    let ?w0 = "logging (LogInitialAttempt (a + 1) MAX_RETRIES) w"
    have "fetch env (get_count ?w0) = Inr (markets, latency)"
      using Cons.prems(3) 0 by (simp add: logging_def)
    from get_upbit_markets_fetched [OF this] Cons.prems(4) 0 show ?thesis
      by (simp add: logging_def)
  next
    case (Suc i')
    with Cons.prems have "fetch_failed env (get_count w)" by auto
    from wait_attempts_step [OF assms this, of a as] obtain w1 where w1:
      "wait_attempts env (a # as) w = wait_attempts env as w1"
      "get_count w1 = Suc (get_count w)"
      by blast
    have "i' < length as" "\<forall>j<i'. fetch_failed env (get_count w1 + j)"
      "fetch env (get_count w1 + i') = Inr (markets, latency)"
      using Cons.prems Suc w1(2) by auto
    from Cons.IH [OF this Cons.prems(4)] w1 Suc show ?thesis by simp
  qed
qed

lemma logging_fields:
  "get_count (logging l w) = get_count w"
  "sent_log (logging l w) = sent_log w"
  "close_count (logging l w) = close_count w"
  "post_log (logging l w) = post_log w"
  "sleep_log (logging l w) = sleep_log w"
  "log_lines (logging l w) = log_lines w @ [l]"
  by (simp_all add: logging_def)

lemma stop_without_markets_frame:
  "get_count (snd (stop_without_markets env w)) = get_count w"
  "close_count (snd (stop_without_markets env w)) = close_count w"
  "sent_log (snd (stop_without_markets env w)) = sent_log w @ [MsgInitialFetchFailed]"
  "\<And>s. fst (stop_without_markets env w) \<noteq> Inr (Some s)"
  by (simp_all add: stop_without_markets_def split_beta send_telegram_message_frame logging_fields
        split: sum.splits)

lemma stop_without_markets_returns:
  "uninterrupted env \<Longrightarrow> fst (stop_without_markets env w) = Inr None"
  using send_telegram_message_returns [of env MsgInitialFetchFailed 3 "logging LogInitialFetchFailed w"]
  by (auto simp add: stop_without_markets_def split_beta)

lemma start_monitoring_close_count:
  "close_count (snd (start_monitoring env w)) = close_count w"
proof -
  let ?wt = "wait_for_initial_markets env (logging LogMonitorStart w)"
  have c: "close_count (snd ?wt) = close_count w"
    using wait_attempts_frame [of env "[0..<MAX_RETRIES]" "logging LogMonitorStart w"]
    by (simp add: wait_for_initial_markets_def logging_fields)
  show ?thesis
    by (simp add: start_monitoring_def split_beta c stop_without_markets_frame
          send_telegram_message_frame logging_fields split: sum.splits option.splits)
qed

lemma start_monitoring_Some:
  assumes "fst (start_monitoring env w) = Inr (Some s0)"
  shows "current_markets_set s0 \<noteq> {} \<and> consecutive_errors s0 = 0"
proof -
  let ?wt = "wait_for_initial_markets env (logging LogMonitorStart w)"
  from assms obtain initial where i: "fst ?wt = Inr initial"
    by (cases "fst ?wt") (simp_all add: start_monitoring_def split_beta)
  with assms obtain markets where m: "initial = Some markets" "markets \<noteq> {}"
    by (cases initial)
       (auto simp add: start_monitoring_def split_beta stop_without_markets_frame
          split: if_splits)
  with assms i show ?thesis
    by (auto simp add: start_monitoring_def split_beta split: sum.splits)
qed

lemma start_monitoring_failed:
  assumes "uninterrupted env"
    and "\<forall>i<MAX_RETRIES. fetch_failed env (get_count w + i)"
  shows "fst (start_monitoring env w) = Inr None"
    and "get_count (snd (start_monitoring env w)) = get_count w + MAX_RETRIES"
    and "sent_log (snd (start_monitoring env w)) = sent_log w @ [MsgInitialFetchFailed]"
proof -
  let ?w0 = "logging LogMonitorStart w"
  let ?wt = "wait_for_initial_markets env ?w0"
  have "\<forall>j<length [0..<MAX_RETRIES]. fetch_failed env (get_count ?w0 + j)"
    using assms(2) by (simp add: logging_fields)
  from wait_attempts_failed [OF assms(1) this]
  have wt: "fst ?wt = Inr None" "get_count (snd ?wt) = get_count w + MAX_RETRIES"
    by (simp_all add: wait_for_initial_markets_def logging_fields)
  have ws: "sent_log (snd ?wt) = sent_log w"
    using wait_attempts_frame [of env "[0..<MAX_RETRIES]" ?w0]
    by (simp add: wait_for_initial_markets_def logging_fields)
  have eq: "start_monitoring env w = stop_without_markets env (snd ?wt)"
    using wt(1) by (simp add: start_monitoring_def split_beta)
  show "fst (start_monitoring env w) = Inr None"
    unfolding eq by (rule stop_without_markets_returns [OF assms(1)])
  show "get_count (snd (start_monitoring env w)) = get_count w + MAX_RETRIES"
    unfolding eq by (simp add: stop_without_markets_frame wt)
  show "sent_log (snd (start_monitoring env w)) = sent_log w @ [MsgInitialFetchFailed]"
    unfolding eq by (simp add: stop_without_markets_frame ws)
qed

lemma start_monitoring_fetched:
  assumes "uninterrupted env"
    and "i < MAX_RETRIES"
    and "\<forall>j<i. fetch_failed env (get_count w + j)"
    and "fetch env (get_count w + i) = Inr (markets, latency)"
    and "markets \<noteq> {}"
  shows "fst (start_monitoring env w) =
           Inr (Some \<lparr>current_markets_set = markets, consecutive_errors = 0\<rparr>)"
    and "get_count (snd (start_monitoring env w)) = get_count w + i + 1"
    and "sent_log (snd (start_monitoring env w)) =
           sent_log w @ [MsgMonitoringStarted (card markets)]"
proof -
  let ?w0 = "logging LogMonitorStart w"
  let ?wt = "wait_for_initial_markets env ?w0"
  let ?send = "send_telegram_message env (MsgMonitoringStarted (card markets)) 3
                 (logging (LogInitialList (card markets)) (snd ?wt))"
  have "i < length [0..<MAX_RETRIES]" "\<forall>j<i. fetch_failed env (get_count ?w0 + j)"
    "fetch env (get_count ?w0 + i) = Inr (markets, latency)"
    using assms(2-4) by (simp_all add: logging_fields)
  from wait_attempts_fetched [OF assms(1) this assms(5)]
  have wt: "fst ?wt = Inr (Some markets)" "get_count (snd ?wt) = get_count w + i + 1"
    by (simp_all add: wait_for_initial_markets_def logging_fields)
  have ws: "sent_log (snd ?wt) = sent_log w"
    using wait_attempts_frame [of env "[0..<MAX_RETRIES]" ?w0]
    by (simp add: wait_for_initial_markets_def logging_fields)
  from send_telegram_message_returns [OF assms(1)] obtain b where b: "fst ?send = Inr b"
    by blast
  have eq: "start_monitoring env w =
      (Inr (Some \<lparr>current_markets_set = markets, consecutive_errors = 0\<rparr>), snd ?send)"
    using wt(1) assms(5) b by (simp add: start_monitoring_def split_beta)
  show "fst (start_monitoring env w) =
           Inr (Some \<lparr>current_markets_set = markets, consecutive_errors = 0\<rparr>)"
    unfolding eq by simp
  show "get_count (snd (start_monitoring env w)) = get_count w + i + 1"
    unfolding eq by (simp add: send_telegram_message_frame logging_fields wt)
  show "sent_log (snd (start_monitoring env w)) =
           sent_log w @ [MsgMonitoringStarted (card markets)]"
    unfolding eq by (simp add: send_telegram_message_frame logging_fields ws)
qed

subsection \<open>The start of the monitor\<close>

lemma monitor_not_started:
  "fst (start_monitoring env w) = Inr None \<Longrightarrow>
     monitor_upbit_listings env n w = (Returned, snd (start_monitoring env w))"
  by (simp add: monitor_upbit_listings_def split_beta)





subsection \<open>Closing the session\<close>

lemma monitor_closes_after_loop:
  assumes "fst (start_monitoring env w) = Inr (Some s0)"
    and "fst (running_loop env n s0 (snd (start_monitoring env w))) = Inl e"
  shows "close_count (snd (monitor_upbit_listings env n w)) = Suc (close_count w)"
  using assms
  by (simp add: monitor_upbit_listings_def split_beta session_close_def handle_exception_def
        send_telegram_message_frame logging_fields running_loop_frame
        start_monitoring_close_count split: sum.splits)

lemma monitor_leaves_session_open:
  assumes "fst (start_monitoring env w) = Inr None"
  shows "fst (monitor_upbit_listings env n w) = Returned"
    and "close_count (snd (monitor_upbit_listings env n w)) = close_count w"
  by (simp_all add: monitor_not_started [OF assms] start_monitoring_close_count)

text \<open>
  C9 says that the session is closed exactly once on every exit path, the failure of the
  start included. The code closes it in the \<open>finally\<close> of the loop only
  (\<open>monitor_closes_after_loop\<close>); the \<open>return\<close> of line 169 comes before the \<open>try\<close>
  (\<open>monitor_leaves_session_open\<close>). With an exchange that cannot be reached the call
  sends the failure alert and returns with the session never closed.
\<close>

theorem C9_session_left_open:
  "fst (monitor_upbit_listings (scripted_env [ascii ''1''] [] [] []) n world0) = Returned
   \<and> sent_log (snd (monitor_upbit_listings (scripted_env [ascii ''1''] [] [] []) n world0))
       = [MsgInitialFetchFailed]
   \<and> close_count (snd (monitor_upbit_listings (scripted_env [ascii ''1''] [] [] []) n world0)) = 0"
proof -
  let ?E = "scripted_env [ascii ''1''] [] [] []"
  have u: "uninterrupted ?E"
    by (rule uninterrupted_scripted) simp_all
  have f: "\<forall>i<MAX_RETRIES. fetch_failed ?E (get_count world0 + i)"
    by (simp add: fetch_failed_def fetch_def scripted_env_def)
  note start = start_monitoring_failed [OF u f]
  have w0: "sent_log world0 = []" "close_count world0 = 0"
    by (simp_all add: world0_def)
  have "sent_log (snd (monitor_upbit_listings ?E n world0)) = [MsgInitialFetchFailed]"
    unfolding monitor_not_started [OF start(1)] using start(3) w0 by simp
  with monitor_leaves_session_open [OF start(1), of n] w0
  show ?thesis by simp
qed

subsection \<open>The exit status\<close>







lemma initial_attempts:
  "[0..<3] = [0, 1, 2 :: nat]"
  by (simp add: eval_nat_numeral)

lemmas eval_monitor = script_def load_configuration_def strip_def isspace_def ascii_def
  monitor_upbit_listings_def start_monitoring_def stop_without_markets_def
  wait_for_initial_markets_def MAX_RETRIES_def initial_attempts RETRY_DELAY_def
  handle_exception_def session_close_def



subsection \<open>The empty set\<close>

lemma fetch_empty:
  assumes "session_get env k = GetResponse status_code status_line latency (Inr data)"
    and "status_code < 400 \<or> 600 \<le> status_code"
    and "\<forall>item \<in> set data. item ''market'' = None"
  shows "fetch env k = Inr ({}, latency)"
proof -
  have "List.map_filter (\<lambda>item. item ''market'') data = []"
    using assms(3) by (induction data) simp_all
  with assms(1,2) show ?thesis
    by (auto simp add: fetch_def)
qed

lemma fetch_empty_failed:
  "fetch env k = Inr ({}, latency) \<Longrightarrow> fetch_failed env k"
  by (simp add: fetch_failed_def)

text \<open>
  C10: a fetch that succeeds with the empty set is handled as a failed fetch. In the
  loop the iteration is the one of lines 187 to 197: when it completes, the current set
  is unchanged and the failure counter is one more (or 0 again, when it reached the
  threshold and the alert went out). At the start, without interrupts, three fetches that
  succeed with the empty set are three failed attempts: \<open>wait_for_initial_markets\<close>
  returns \<open>None\<close> and the monitor stops with the failure alert.
\<close>

theorem C10_empty_set_is_failure:
  "(fetch env (get_count w) = Inr ({}, latency) \<longrightarrow>
      loop_body env s w = skip_iteration env s (w\<lparr>get_count := Suc (get_count w)\<rparr>)
      \<and> (\<forall>s'. fst (loop_body env s w) = Inr s' \<longrightarrow>
            current_markets_set s' = current_markets_set s
            \<and> consecutive_errors s' =
                (if consecutive_errors s + 1 \<ge> max_consecutive_errors then 0
                 else consecutive_errors s + 1)))
   \<and> (uninterrupted env
        \<and> (\<forall>i<MAX_RETRIES. \<exists>latency. fetch env (get_count w + i) = Inr ({}, latency)) \<longrightarrow>
      fst (wait_for_initial_markets env w) = Inr None
      \<and> get_count (snd (wait_for_initial_markets env w)) = get_count w + MAX_RETRIES
      \<and> fst (monitor_upbit_listings env n w) = Returned
      \<and> sent_log (snd (monitor_upbit_listings env n w)) = sent_log w @ [MsgInitialFetchFailed])"
proof (intro conjI impI)
  assume f: "fetch env (get_count w) = Inr ({}, latency)"
  show body: "loop_body env s w = skip_iteration env s (w\<lparr>get_count := Suc (get_count w)\<rparr>)"
    by (simp add: loop_body_def get_upbit_markets_fetched [OF f])
  show "\<forall>s'. fst (loop_body env s w) = Inr s' \<longrightarrow>
            current_markets_set s' = current_markets_set s
            \<and> consecutive_errors s' =
                (if consecutive_errors s + 1 \<ge> max_consecutive_errors then 0
                 else consecutive_errors s + 1)"
    unfolding body using skip_iteration_state by blast
next
  assume a: "uninterrupted env
        \<and> (\<forall>i<MAX_RETRIES. \<exists>latency. fetch env (get_count w + i) = Inr ({}, latency))"
  then have u: "uninterrupted env"
    and failed: "\<forall>i<MAX_RETRIES. fetch_failed env (get_count w + i)"
    by (auto intro: fetch_empty_failed)
  have "\<forall>j<length [0..<MAX_RETRIES]. fetch_failed env (get_count w + j)"
    using failed by simp
  from wait_attempts_failed [OF u this]
  show "fst (wait_for_initial_markets env w) = Inr None"
    and "get_count (snd (wait_for_initial_markets env w)) = get_count w + MAX_RETRIES"
    by (simp_all add: wait_for_initial_markets_def)
  note start = start_monitoring_failed [OF u failed]
  show "fst (monitor_upbit_listings env n w) = Returned"
    by (simp add: monitor_not_started [OF start(1)])
  show "sent_log (snd (monitor_upbit_listings env n w)) = sent_log w @ [MsgInitialFetchFailed]"
    by (simp add: monitor_not_started [OF start(1)] start(3))
qed

text \<open>
  The theorem at work: the exchange answers with an empty list, with an object without
  the field \<open>market\<close>, and with an empty list again.
\<close>

theorem C10_empty_set_is_failure_witness:
  "fetch (scripted_env [ascii ''1'']
            [markets_response [], GetResponse 200 ''OK'' (1 / 4) (Inr [[''error'' \<mapsto> ''busy'']]),
             markets_response []] [] []) 0 = Inr ({}, 1 / 4)
   \<and> fst (loop_body
          (scripted_env [ascii ''1'']
            [markets_response [], GetResponse 200 ''OK'' (1 / 4) (Inr [[''error'' \<mapsto> ''busy'']]),
             markets_response []] [] [])
          \<lparr>current_markets_set = {''KRW-BTC''}, consecutive_errors = 0\<rparr> world0)
       = Inr \<lparr>current_markets_set = {''KRW-BTC''}, consecutive_errors = 1\<rparr>
   \<and> fst (monitor_upbit_listings
          (scripted_env [ascii ''1'']
            [markets_response [], GetResponse 200 ''OK'' (1 / 4) (Inr [[''error'' \<mapsto> ''busy'']]),
             markets_response []] [] [])
          7 world0) = Returned
   \<and> sent_log (snd (monitor_upbit_listings
          (scripted_env [ascii ''1'']
            [markets_response [], GetResponse 200 ''OK'' (1 / 4) (Inr [[''error'' \<mapsto> ''busy'']]),
             markets_response []] [] [])
          7 world0)) = [MsgInitialFetchFailed]"
proof -
  let ?E = "scripted_env [ascii ''1'']
            [markets_response [], GetResponse 200 ''OK'' (1 / 4) (Inr [[''error'' \<mapsto> ''busy'']]),
             markets_response []] [] []"
  let ?S = "\<lparr>current_markets_set = {''KRW-BTC''}, consecutive_errors = 0\<rparr>"
  have w0: "get_count world0 = 0" "sent_log world0 = []"
    by (simp_all add: world0_def)
  have u: "uninterrupted ?E"
    by (rule uninterrupted_scripted) simp_all
  have f: "fetch ?E 0 = Inr ({}, 1 / 4)" "fetch ?E 1 = Inr ({}, 1 / 4)" "fetch ?E 2 = Inr ({}, 1 / 4)"
    by (simp_all add: fetch_def scripted_env_def markets_response_def)
  have all: "\<forall>i<MAX_RETRIES. \<exists>latency. fetch ?E (get_count world0 + i) = Inr ({}, latency)"
  proof (intro allI impI)
    fix i :: nat
    assume "i < MAX_RETRIES"
    then have "i = 0 \<or> i = 1 \<or> i = 2"
      by (auto simp add: MAX_RETRIES_def)
    with f show "\<exists>latency. fetch ?E (get_count world0 + i) = Inr ({}, latency)"
      unfolding w0 by auto
  qed
  have "fetch ?E (get_count world0) \<noteq> Inl KeyboardInterrupt"
    using f(1) w0 by simp
  from loop_body_returns [OF u this, of ?S] obtain s' where
    s': "fst (loop_body ?E ?S world0) = Inr s'" by blast
  from C10_empty_set_is_failure [THEN conjunct1, rule_format, of ?E world0 "1 / 4" ?S] f(1) s'
  have "current_markets_set s' = {''KRW-BTC''} \<and> consecutive_errors s' = 1"
    by (simp add: w0 max_consecutive_errors_def)
  then have "s' = \<lparr>current_markets_set = {''KRW-BTC''}, consecutive_errors = 1\<rparr>"
    by (cases s') simp
  with s' have 1: "fst (loop_body ?E ?S world0) =
      Inr \<lparr>current_markets_set = {''KRW-BTC''}, consecutive_errors = 1\<rparr>"
    by simp
  from C10_empty_set_is_failure [THEN conjunct2, rule_format, of ?E world0 7] u all
  have 2: "fst (monitor_upbit_listings ?E 7 world0) = Returned"
    "sent_log (snd (monitor_upbit_listings ?E 7 world0)) = [MsgInitialFetchFailed]"
    by (simp_all add: w0)
  from f(1) 1 2 show ?thesis by blast
qed

subsection \<open>Equal and different snapshots\<close>

lemma last_nonempty_fetched_nonempty:
  "initial \<noteq> {} \<Longrightarrow> last_nonempty_fetched env g n initial \<noteq> {}"
  by (induction n) (auto split: sum.splits)

lemma running_loop_nonempty:
  assumes "fst (start_monitoring env w0) = Inr (Some s0)"
    and "running_loop env n s0 (snd (start_monitoring env w0)) = (Inr s, w)"
  shows "current_markets_set s \<noteq> {}"
  using start_monitoring_Some [OF assms(1)] running_loop_current [OF assms(2)]
  by (simp add: last_nonempty_fetched_nonempty)

text \<open>
  C5, amended. Take any iteration of the loop of a started monitor, and let its fetch
  return a set. If the set is the current set, no message is dispatched, and the current
  set is unchanged when the iteration completes. If the set is not empty and differs from
  the current set, whatever the sizes of the two differences, it is the current set when
  the iteration completes. If the set is empty, the iteration is the one after a failed
  fetch (lines 187 to 197), and the current set is unchanged when it completes.
\<close>

theorem C5_unchanged_or_replaced:
  assumes "start_monitoring env w0 = (Inr (Some s0), w1)"
    and "running_loop env n s0 w1 = (Inr s, w)"
    and "fetch env (get_count w) = Inr (fetched, latency)"
  shows "(fetched = current_markets_set s \<longrightarrow>
            sent_log (snd (loop_body env s w)) = sent_log w
            \<and> (\<forall>s'. fst (loop_body env s w) = Inr s' \<longrightarrow>
                  current_markets_set s' = current_markets_set s))
       \<and> (fetched \<noteq> current_markets_set s \<and> fetched \<noteq> {} \<longrightarrow>
            (\<forall>s'. fst (loop_body env s w) = Inr s' \<longrightarrow> current_markets_set s' = fetched))
       \<and> (fetched = {} \<longrightarrow>
            loop_body env s w = skip_iteration env s (w\<lparr>get_count := Suc (get_count w)\<rparr>)
            \<and> (\<forall>s'. fst (loop_body env s w) = Inr s' \<longrightarrow>
                  current_markets_set s' = current_markets_set s))"
proof -
  have ne: "current_markets_set s \<noteq> {}"
    using running_loop_nonempty [of env w0 s0 n s w] assms(1,2) by simp
  let ?w = "w\<lparr>get_count := Suc (get_count w)\<rparr>"
  have body: "fetched \<noteq> {} \<Longrightarrow> loop_body env s w = process_snapshot env s fetched latency ?w"
    by (rule loop_body_fetched [OF assms(3)])
  have same: "sent_log (snd (loop_body env s w)) = sent_log w
            \<and> (\<forall>s'. fst (loop_body env s w) = Inr s' \<longrightarrow>
                  current_markets_set s' = current_markets_set s)"
    if eq: "fetched = current_markets_set s"
  proof -
    from eq ne have "fetched \<noteq> {}" by simp
    note b = body [OF this]
    have "sent_log (snd (loop_body env s w)) = sent_log w"
      unfolding b process_snapshot_frame(3) using eq by simp
    moreover have "\<forall>s'. fst (loop_body env s w) = Inr s' \<longrightarrow>
                  current_markets_set s' = current_markets_set s"
      unfolding b using process_snapshot_state eq by blast
    ultimately show ?thesis by blast
  qed
  have differs: "\<forall>s'. fst (loop_body env s w) = Inr s' \<longrightarrow> current_markets_set s' = fetched"
    if "fetched \<noteq> {}"
    unfolding body [OF that] using process_snapshot_state by blast
  have empty: "loop_body env s w = skip_iteration env s (w\<lparr>get_count := Suc (get_count w)\<rparr>)
            \<and> (\<forall>s'. fst (loop_body env s w) = Inr s' \<longrightarrow>
                  current_markets_set s' = current_markets_set s)"
    if e: "fetched = {}"
  proof -
    have skip: "loop_body env s w = skip_iteration env s (w\<lparr>get_count := Suc (get_count w)\<rparr>)"
      using get_upbit_markets_fetched [OF assms(3)] e by (simp add: loop_body_def)
    moreover have "\<forall>s'. fst (loop_body env s w) = Inr s' \<longrightarrow>
                  current_markets_set s' = current_markets_set s"
      unfolding skip using skip_iteration_state by blast
    ultimately show ?thesis by blast
  qed
  from same differs empty show ?thesis by blast
qed

text \<open>
  C5, as stated: whenever the fetched set differs from the current set, the current set
  is the fetched set at the end of the iteration. An empty fetched set differs from the
  current set of a started monitor, and line 186 takes it for a failure: the iteration
  completes with the current set unchanged.
\<close>

theorem C5_empty_fetch_counterexample:
  "fst (start_monitoring
          (scripted_env [ascii ''1''] [markets_response [''KRW-BTC''], markets_response []] [] [])
          world0)
     = Inr (Some \<lparr>current_markets_set = {''KRW-BTC''}, consecutive_errors = 0\<rparr>)
   \<and> fetch (scripted_env [ascii ''1''] [markets_response [''KRW-BTC''], markets_response []] [] [])
        (get_count (snd (start_monitoring
          (scripted_env [ascii ''1''] [markets_response [''KRW-BTC''], markets_response []] [] [])
          world0)))
     = Inr ({}, 1 / 4)
   \<and> fst (loop_body
          (scripted_env [ascii ''1''] [markets_response [''KRW-BTC''], markets_response []] [] [])
          \<lparr>current_markets_set = {''KRW-BTC''}, consecutive_errors = 0\<rparr>
          (snd (start_monitoring
             (scripted_env [ascii ''1''] [markets_response [''KRW-BTC''], markets_response []] [] [])
             world0)))
     = Inr \<lparr>current_markets_set = {''KRW-BTC''}, consecutive_errors = 1\<rparr>"
  by (simp add: eval_monitor eval_loop)

text \<open>
  The theorem at work: the first iteration fetches the current set again, the second
  fetches a set with one pair less and one pair more.
\<close>

theorem C5_unchanged_or_replaced_witness:
  "fst (start_monitoring
          (scripted_env [ascii ''1'']
             [markets_response [''KRW-BTC'', ''KRW-ETH''], markets_response [''KRW-BTC'', ''KRW-ETH''],
              markets_response [''KRW-BTC'', ''KRW-XRP'']] [] [])
          world0)
     = Inr (Some \<lparr>current_markets_set = {''KRW-BTC'', ''KRW-ETH''}, consecutive_errors = 0\<rparr>)
   \<and> sent_log (snd (loop_body
          (scripted_env [ascii ''1'']
             [markets_response [''KRW-BTC'', ''KRW-ETH''], markets_response [''KRW-BTC'', ''KRW-ETH''],
              markets_response [''KRW-BTC'', ''KRW-XRP'']] [] [])
          \<lparr>current_markets_set = {''KRW-BTC'', ''KRW-ETH''}, consecutive_errors = 0\<rparr>
          (snd (start_monitoring
             (scripted_env [ascii ''1'']
                [markets_response [''KRW-BTC'', ''KRW-ETH''], markets_response [''KRW-BTC'', ''KRW-ETH''],
                 markets_response [''KRW-BTC'', ''KRW-XRP'']] [] [])
             world0))))
     = [MsgMonitoringStarted 2]
   \<and> (\<exists>s w s'.
         running_loop
           (scripted_env [ascii ''1'']
              [markets_response [''KRW-BTC'', ''KRW-ETH''], markets_response [''KRW-BTC'', ''KRW-ETH''],
               markets_response [''KRW-BTC'', ''KRW-XRP'']] [] [])
           1 \<lparr>current_markets_set = {''KRW-BTC'', ''KRW-ETH''}, consecutive_errors = 0\<rparr>
           (snd (start_monitoring
             (scripted_env [ascii ''1'']
                [markets_response [''KRW-BTC'', ''KRW-ETH''], markets_response [''KRW-BTC'', ''KRW-ETH''],
                 markets_response [''KRW-BTC'', ''KRW-XRP'']] [] [])
             world0)) = (Inr s, w)
         \<and> current_markets_set s = {''KRW-BTC'', ''KRW-ETH''}
         \<and> fst (loop_body
                  (scripted_env [ascii ''1'']
                     [markets_response [''KRW-BTC'', ''KRW-ETH''],
                      markets_response [''KRW-BTC'', ''KRW-ETH''],
                      markets_response [''KRW-BTC'', ''KRW-XRP'']] [] [])
                  s w) = Inr s'
         \<and> current_markets_set s' = {''KRW-BTC'', ''KRW-XRP''})"
proof -
  let ?E = "scripted_env [ascii ''1'']
             [markets_response [''KRW-BTC'', ''KRW-ETH''], markets_response [''KRW-BTC'', ''KRW-ETH''],
              markets_response [''KRW-BTC'', ''KRW-XRP'']] [] []"
  let ?S0 = "\<lparr>current_markets_set = {''KRW-BTC'', ''KRW-ETH''}, consecutive_errors = 0\<rparr>"
  let ?start = "start_monitoring ?E world0"
  have w0: "get_count world0 = 0" "sent_log world0 = []"
    by (simp_all add: world0_def)
  have u: "uninterrupted ?E"
    by (rule uninterrupted_scripted) simp_all
  have f: "fetch ?E 0 = Inr ({''KRW-BTC'', ''KRW-ETH''}, 1 / 4)"
    "fetch ?E 1 = Inr ({''KRW-BTC'', ''KRW-ETH''}, 1 / 4)"
    "fetch ?E 2 = Inr ({''KRW-BTC'', ''KRW-XRP''}, 1 / 4)"
    by (simp_all add: fetch_def scripted_env_def markets_response_def)
  have c: "card {''KRW-BTC'', ''KRW-ETH''} = 2"
    by simp
  have differ: "{''KRW-BTC'', ''KRW-XRP''} \<noteq> {''KRW-BTC'', ''KRW-ETH''}"
    by (simp add: doubleton_eq_iff)
  txt \<open>The start: the first fetch succeeds.\<close>
  have "0 < MAX_RETRIES" "\<forall>j<0. fetch_failed ?E (get_count world0 + j)"
    "fetch ?E (get_count world0 + 0) = Inr ({''KRW-BTC'', ''KRW-ETH''}, 1 / 4)"
    using f(1) by (simp_all add: MAX_RETRIES_def w0)
  note st = start_monitoring_fetched [OF u this insert_not_empty]
  from st(1) have start: "?start = (Inr (Some ?S0), snd ?start)"
    by (simp add: prod_eq_iff)
  from st(2) have g1: "get_count (snd ?start) = 1"
    by (simp add: w0)
  from st(3) have sent1: "sent_log (snd ?start) = [MsgMonitoringStarted 2]"
    by (simp add: w0 c)
  txt \<open>The first iteration fetches the current set again.\<close>
  have run0: "running_loop ?E 0 ?S0 (snd ?start) = (Inr ?S0, snd ?start)"
    by simp
  from C5_unchanged_or_replaced [OF start run0, unfolded g1, OF f(2)]
  have same: "sent_log (snd (loop_body ?E ?S0 (snd ?start))) = sent_log (snd ?start)"
    "\<And>s'. fst (loop_body ?E ?S0 (snd ?start)) = Inr s' \<Longrightarrow>
        current_markets_set s' = {''KRW-BTC'', ''KRW-ETH''}"
    by simp_all
  txt \<open>The second iteration fetches one pair less and one pair more.\<close>
  have "\<forall>i<1. fetch ?E (get_count (snd ?start) + i) \<noteq> Inl KeyboardInterrupt"
    using f(2) g1 by simp
  from running_loop_returns [OF u this, of ?S0] obtain s where
    s: "fst (running_loop ?E 1 ?S0 (snd ?start)) = Inr s" by blast
  let ?w = "snd (running_loop ?E 1 ?S0 (snd ?start))"
  from s have run1: "running_loop ?E 1 ?S0 (snd ?start) = (Inr s, ?w)"
    by (simp add: prod_eq_iff)
  from s have "fst (loop_body ?E ?S0 (snd ?start)) = Inr s"
    by (simp add: split_beta split: sum.splits)
  from same(2) [OF this] have cur: "current_markets_set s = {''KRW-BTC'', ''KRW-ETH''}" .
  from running_loop_get_count [OF run1] g1 have g2: "get_count ?w = 2"
    by simp
  have "fetch ?E (get_count ?w) \<noteq> Inl KeyboardInterrupt"
    using f(3) g2 by simp
  from loop_body_returns [OF u this, of s] obtain s' where
    s': "fst (loop_body ?E s ?w) = Inr s'" by blast
  from C5_unchanged_or_replaced [OF start run1, unfolded g2, OF f(3)] differ cur s'
  have "current_markets_set s' = {''KRW-BTC'', ''KRW-XRP''}"
    by simp
  with run1 cur s' have "\<exists>s w s'. running_loop ?E 1 ?S0 (snd ?start) = (Inr s, w)
         \<and> current_markets_set s = {''KRW-BTC'', ''KRW-ETH''}
         \<and> fst (loop_body ?E s w) = Inr s'
         \<and> current_markets_set s' = {''KRW-BTC'', ''KRW-XRP''}"
    by blast
  moreover from same(1) sent1
  have "sent_log (snd (loop_body ?E ?S0 (snd ?start))) = [MsgMonitoringStarted 2]"
    by simp
  ultimately show ?thesis
    using st(1) by blast
qed

end
